theory Spec2Isabelle
  imports Main "HOL-Library.Word"
begin

section \<open>The dispatch command \<^verbatim>\<open>node_whatsapp/send_message.cjs\<close>\<close>

subsection \<open>JavaScript strings\<close>

text \<open>
  A JavaScript string is a sequence of UTF-16 code units. The command reads its
  arguments from \<^verbatim>\<open>process.argv\<close>, so every argument is such a
  string.
\<close>

type_synonym code_unit = "16 word"
type_synonym js_string = "code_unit list"

definition lit :: "string \<Rightarrow> js_string" where
  "lit s = map of_char s"

text \<open>The class \<^verbatim>\<open>\d\<close> of a regular expression without the unicode flag: 0 to 9.\<close>

definition is_digit :: "code_unit \<Rightarrow> bool" where
  "is_digit c = (0x30 \<le> c \<and> c \<le> 0x39)"

text \<open>
  \<^verbatim>\<open>s.replace(/[C]/g, r)\<close> for a pattern that is one character
  class: every code unit of the class is replaced by \<open>r\<close>, the others are
  copied.
\<close>

fun replace_all :: "(code_unit \<Rightarrow> bool) \<Rightarrow> js_string \<Rightarrow> js_string \<Rightarrow> js_string" where
  "replace_all cls r [] = []"
| "replace_all cls r (c # cs) =
     (if cls c then r @ replace_all cls r cs else c # replace_all cls r cs)"

text \<open>Line 21: \<^verbatim>\<open>phone.replace(/[^\d]/g, '') + '@c.us'\<close>.\<close>

definition cleanPhone :: "js_string \<Rightarrow> js_string" where
  "cleanPhone phone = replace_all (\<lambda>c. \<not> is_digit c) [] phone @ lit ''@c.us''"

text \<open>
  A regular expression anchored at the start of the input, built from single
  characters and optional single characters; \<open>regex_test\<close> is
  \<^verbatim>\<open>re.test(s)\<close>.
\<close>

datatype regex_item = Chr code_unit | Opt code_unit

fun regex_test :: "regex_item list \<Rightarrow> js_string \<Rightarrow> bool" where
  "regex_test [] s = True"
| "regex_test (Chr c # ps) [] = False"
| "regex_test (Chr c # ps) (x # xs) = (x = c \<and> regex_test ps xs)"
| "regex_test (Opt c # ps) [] = regex_test ps []"
| "regex_test (Opt c # ps) (x # xs) =
     ((x = c \<and> regex_test ps xs) \<or> regex_test ps (x # xs))"

text \<open>Line 44: \<^verbatim>\<open>/^https?:\/\//\<close>.\<close>

definition url_pattern :: "regex_item list" where
  "url_pattern = [Chr 0x68, Chr 0x74, Chr 0x74, Chr 0x70, Opt 0x73, Chr 0x3A, Chr 0x2F, Chr 0x2F]"

text \<open>
  \<^verbatim>\<open>String.prototype.trim\<close> removes white space and line
  terminators from both ends: TAB, LF, VT, FF, CR, SP, NBSP, the space separators of
  Unicode, LS, PS and the byte order mark.
\<close>

definition is_js_space :: "code_unit \<Rightarrow> bool" where
  "is_js_space c =
     (c \<in> set [0x09, 0x0A, 0x0B, 0x0C, 0x0D, 0x20, 0xA0, 0x1680, 0x2028, 0x2029,
                0x202F, 0x205F, 0x3000, 0xFEFF]
      \<or> (0x2000 \<le> c \<and> c \<le> 0x200A))"

definition trim :: "js_string \<Rightarrow> js_string" where
  "trim s = rev (dropWhile is_js_space (rev (dropWhile is_js_space s)))"

subsection \<open>The process and the world around it\<close>

text \<open>
  A value that is thrown or that rejects a promise: an
  \<^verbatim>\<open>Error\<close> object with its message.
\<close>

datatype js_error = JsError (message: js_string)

datatype js_value = Str js_string | Err js_error

text \<open>
  What the process does to the outside, in order: console output, the calls into
  the messaging library and the file system, the fixed wait, and the exit.
\<close>

datatype event =
    ConsoleError "js_value list"
  | ConsoleLog "js_value list"
  | WaCreate
  | SendText js_string js_string
  | ExistsSync js_string
  | SendImage js_string js_string js_string js_string
  | Wait nat
  | ClientKill
  | ProcessExit nat

text \<open>
  The answers of the outside world. A promise of the library either resolves
  (\<open>None\<close>) or rejects with an error; \<open>kill_result n\<close> is the
  answer to the call of \<^verbatim>\<open>client.kill()\<close> that follows
  \<open>n\<close> earlier ones. \<^verbatim>\<open>path.resolve\<close> and
  \<^verbatim>\<open>path.basename\<close> belong to the runtime and are taken as they
  are.
\<close>

record world =
  create_result :: "js_error option"
  sendText_result :: "js_string \<Rightarrow> js_string \<Rightarrow> js_error option"
  sendImage_result :: "js_string \<Rightarrow> js_string \<Rightarrow> js_string \<Rightarrow> js_string \<Rightarrow> js_error option"
  kill_result :: "nat \<Rightarrow> js_error option"
  existsSync :: "js_string \<Rightarrow> bool"
  path_resolve :: "js_string \<Rightarrow> js_string"
  path_basename :: "js_string \<Rightarrow> js_string"

text \<open>
  A statement completes normally with a value, throws, or ends the process:
  \<^verbatim>\<open>process.exit\<close> does not return, so nothing after it runs
  and no handler catches it.
\<close>

datatype 'a completion = Normal 'a | Throw js_error | Exit nat

type_synonym 'a proc = "event list \<Rightarrow> 'a completion \<times> event list"

definition ret :: "'a \<Rightarrow> 'a proc" where
  "ret x tr = (Normal x, tr)"

definition throw :: "js_error \<Rightarrow> 'a proc" where
  "throw e tr = (Throw e, tr)"

definition and_then :: "'a proc \<Rightarrow> ('a \<Rightarrow> 'b proc) \<Rightarrow> 'b proc" where
  "and_then p f tr =
     (case p tr of
        (Normal x, tr') \<Rightarrow> f x tr'
      | (Throw e, tr') \<Rightarrow> (Throw e, tr')
      | (Exit n, tr') \<Rightarrow> (Exit n, tr'))"

text \<open>\<^verbatim>\<open>try { p } catch (err) { h }\<close>, and \<^verbatim>\<open>promise.catch(h)\<close> on a promise chain.\<close>

definition try_catch :: "'a proc \<Rightarrow> (js_error \<Rightarrow> 'a proc) \<Rightarrow> 'a proc" where
  "try_catch p h tr =
     (case p tr of
        (Throw e, tr') \<Rightarrow> h e tr'
      | r \<Rightarrow> r)"

definition emit :: "event \<Rightarrow> unit proc" where
  "emit ev tr = (Normal (), tr @ [ev])"

text \<open>An awaited call into the library: the call is made, then it resolves or rejects.\<close>

definition await :: "event \<Rightarrow> js_error option \<Rightarrow> unit proc" where
  "await ev r tr = (case r of None \<Rightarrow> (Normal (), tr @ [ev]) | Some e \<Rightarrow> (Throw e, tr @ [ev]))"

definition process_exit :: "nat \<Rightarrow> 'a proc" where
  "process_exit n tr = (Exit n, tr @ [ProcessExit n])"

definition wa_create :: "world \<Rightarrow> unit proc" where
  "wa_create w = await WaCreate (create_result w)"

definition send_text :: "world \<Rightarrow> js_string \<Rightarrow> js_string \<Rightarrow> unit proc" where
  "send_text w to body = await (SendText to body) (sendText_result w to body)"

definition send_image :: "world \<Rightarrow> js_string \<Rightarrow> js_string \<Rightarrow> js_string \<Rightarrow> js_string \<Rightarrow> unit proc" where
  "send_image w to file filename caption =
     await (SendImage to file filename caption) (sendImage_result w to file filename caption)"

definition client_kill :: "world \<Rightarrow> unit proc" where
  "client_kill w tr = await ClientKill (kill_result w (count_list tr ClientKill)) tr"

definition exists_sync :: "world \<Rightarrow> js_string \<Rightarrow> bool proc" where
  "exists_sync w p tr = (Normal (existsSync w p), tr @ [ExistsSync p])"

subsection \<open>The command\<close>

text \<open>Lines 43 to 49: the image reference that is sent.\<close>

definition resolve_image :: "world \<Rightarrow> js_string \<Rightarrow> js_string proc" where
  "resolve_image w imagePath =
     (if \<not> regex_test url_pattern imagePath then
        (let resolvedImage = path_resolve w imagePath in
         and_then (exists_sync w resolvedImage) (\<lambda>found.
           if \<not> found then throw (JsError (lit ''Image file not found: '' @ resolvedImage))
           else ret resolvedImage))
      else ret imagePath)"

text \<open>
  Line 42: \<^verbatim>\<open>imagePath && imagePath.trim() !== ''\<close>; a missing
  third argument is \<^verbatim>\<open>undefined\<close>, here \<open>None\<close>.
\<close>

definition has_image :: "js_string option \<Rightarrow> bool" where
  "has_image imagePath =
     (case imagePath of None \<Rightarrow> False | Some ip \<Rightarrow> ip \<noteq> [] \<and> trim ip \<noteq> [])"

text \<open>Lines 42 to 52.\<close>

definition image_step :: "world \<Rightarrow> js_string \<Rightarrow> js_string \<Rightarrow> js_string \<Rightarrow> js_string option \<Rightarrow> unit proc" where
  "image_step w to phone msg imagePath =
     (case imagePath of
        None \<Rightarrow> ret ()
      | Some ip \<Rightarrow>
          if has_image imagePath then
            and_then (resolve_image w ip) (\<lambda>resolvedImage.
            and_then (send_image w to resolvedImage (path_basename w resolvedImage) msg) (\<lambda>_.
            emit (ConsoleLog [Str (lit ''Image sent to '' @ phone)])))
          else ret ())"

text \<open>Lines 37 to 59: the body of the \<^verbatim>\<open>try\<close>.\<close>

definition try_block :: "world \<Rightarrow> js_string \<Rightarrow> js_string \<Rightarrow> js_string option \<Rightarrow> unit proc" where
  "try_block w phone msg imagePath =
     and_then (send_text w (cleanPhone phone) msg) (\<lambda>_.
     and_then (emit (ConsoleLog [Str (lit ''Message sent to '' @ phone)])) (\<lambda>_.
     and_then (image_step w (cleanPhone phone) phone msg imagePath) (\<lambda>_.
     and_then (emit (ConsoleLog [Str (lit ''Waiting 15 seconds to ensure message delivery...'')])) (\<lambda>_.
     and_then (emit (Wait 15000)) (\<lambda>_.
     and_then (client_kill w) (\<lambda>_.
     process_exit 0))))))"

text \<open>Lines 60 to 65: the \<^verbatim>\<open>catch\<close>; it prints \<^verbatim>\<open>err.message || err\<close>.\<close>

definition catch_block :: "world \<Rightarrow> js_error \<Rightarrow> unit proc" where
  "catch_block w err =
     and_then (emit (ConsoleError [Str (lit ''Error during WhatsApp automation:''),
                  if message err \<noteq> [] then Str (message err) else Err err])) (\<lambda>_.
     and_then (client_kill w) (\<lambda>_.
     process_exit 1))"

text \<open>Lines 35 to 66: the handler that runs once the session exists.\<close>

definition on_client :: "world \<Rightarrow> js_string \<Rightarrow> js_string \<Rightarrow> js_string option \<Rightarrow> unit proc" where
  "on_client w phone msg imagePath =
     try_catch (try_block w phone msg imagePath) (catch_block w)"

text \<open>
  Lines 67 to 70: the handler at the end of the promise chain. It receives a
  rejection of \<^verbatim>\<open>wa.create\<close> and also one of the handler above.
\<close>

definition on_rejected :: "js_error \<Rightarrow> unit proc" where
  "on_rejected err =
     and_then (emit (ConsoleError [Str (lit ''Error initializing wa-automate:''), Err err])) (\<lambda>_.
     process_exit 1)"

text \<open>Line 18: \<^verbatim>\<open>const [phone, message, imagePath] = args\<close>.\<close>

definition arg :: "js_string list \<Rightarrow> nat \<Rightarrow> js_string option" where
  "arg args i = (if i < length args then Some (args ! i) else None)"

text \<open>The whole script, started on the arguments after the script name.\<close>

definition main :: "world \<Rightarrow> js_string list \<Rightarrow> unit completion \<times> event list" where
  "main w args =
     and_then
       (if length args < 2 then
          and_then (emit (ConsoleError [Str (lit ''Usage: node send_message.cjs <phone> <message> [image]'')])) (\<lambda>_.
          process_exit 1)
        else ret ())
       (\<lambda>_.
          try_catch
            (and_then (wa_create w) (\<lambda>_. on_client w (args ! 0) (args ! 1) (arg args 2)))
            on_rejected)
       []"

definition exit_status :: "unit completion \<times> event list \<Rightarrow> nat option" where
  "exit_status r = (case fst r of Exit n \<Rightarrow> Some n | _ \<Rightarrow> None)"

definition trace :: "unit completion \<times> event list \<Rightarrow> event list" where
  "trace r = snd r"

subsection \<open>Observing a run\<close>

text \<open>The events that hand something to the messaging transport.\<close>

fun is_send :: "event \<Rightarrow> bool" where
  "is_send (SendText to body) = True"
| "is_send (SendImage to file filename caption) = True"
| "is_send ev = False"

text \<open>The events of the image step: the look-up of the file and the image send.\<close>

fun is_image_io :: "event \<Rightarrow> bool" where
  "is_image_io (ExistsSync p) = True"
| "is_image_io (SendImage to file filename caption) = True"
| "is_image_io ev = False"

definition is_io :: "event \<Rightarrow> bool" where
  "is_io ev = (is_send ev \<or> is_image_io ev)"

text \<open>The first argument of a send: the chat it goes to.\<close>

fun chat_of :: "event \<Rightarrow> js_string option" where
  "chat_of (SendText to body) = Some to"
| "chat_of (SendImage to file filename caption) = Some to"
| "chat_of ev = None"

text \<open>
  What the two handlers do once an error \<open>e\<close> is caught in the handler,
  after \<open>k\<close> earlier calls of \<^verbatim>\<open>client.kill()\<close>: a
  closed form, proved equal to the run in \<open>caught\<close> below.
\<close>

definition fail_tail :: "world \<Rightarrow> js_error \<Rightarrow> nat \<Rightarrow> event list" where
  "fail_tail w e k =
     [ConsoleError [Str (lit ''Error during WhatsApp automation:''),
        if message e \<noteq> [] then Str (message e) else Err e],
      ClientKill] @
     (case kill_result w k of
        None \<Rightarrow> [ProcessExit 1]
      | Some e' \<Rightarrow> [ConsoleError [Str (lit ''Error initializing wa-automate:''), Err e'], ProcessExit 1])"

text \<open>
  A send of the trace succeeded when the world resolved its promise; every other
  event counts as succeeded.
\<close>

definition send_succeeded :: "world \<Rightarrow> event \<Rightarrow> bool" where
  "send_succeeded w ev =
     (case ev of
        SendText to body \<Rightarrow> sendText_result w to body = None
      | SendImage to file filename caption \<Rightarrow> sendImage_result w to file filename caption = None
      | _ \<Rightarrow> True)"

subsection \<open>Sample invocations\<close>

text \<open>
  A world in which every call resolves, the working directory is
  \<^verbatim>\<open>/srv/wa\<close> and holds the one file
  \<^verbatim>\<open>photo.png\<close> (\<open>path_resolve\<close> is what
  \<^verbatim>\<open>path.resolve\<close> gives there for a plain relative name); then
  the same world with the first \<^verbatim>\<open>client.kill()\<close> rejecting,
  and with every text send rejecting. The arguments are a phone number and a message,
  alone or followed by an image.
\<close>

definition world_ok :: world where
  "world_ok =
     \<lparr>create_result = None,
      sendText_result = (\<lambda>to body. None),
      sendImage_result = (\<lambda>to file filename caption. None),
      kill_result = (\<lambda>n. None),
      existsSync = (\<lambda>p. p = lit ''/srv/wa/photo.png''),
      path_resolve = (\<lambda>p. lit ''/srv/wa/'' @ p),
      path_basename = (\<lambda>p. rev (takeWhile (\<lambda>c. c \<noteq> 0x2F) (rev p)))\<rparr>"

definition world_kill_rejects :: world where
  "world_kill_rejects =
     world_ok\<lparr>kill_result := (\<lambda>n. if n = 0 then Some (JsError (lit ''Target closed'')) else None)\<rparr>"

definition world_text_rejects :: world where
  "world_text_rejects =
     world_ok\<lparr>sendText_result := (\<lambda>to body. Some (JsError (lit ''Evaluation failed'')))\<rparr>"

definition args_text :: "js_string list" where
  "args_text = [lit ''+1-555-0100'', lit ''Hello'']"

definition args_photo :: "js_string list" where
  "args_photo = [lit ''+1-555-0100'', lit ''Hello'', lit ''photo.png'']"

definition args_missing :: "js_string list" where
  "args_missing = [lit ''+1-555-0100'', lit ''Hello'', lit ''missing.png'']"

definition args_url :: "js_string list" where
  "args_url = [lit ''+1-555-0100'', lit ''Hello'', lit ''https://example.org/a.png'']"

definition args_blank :: "js_string list" where
  "args_blank = [lit ''+1-555-0100'', lit ''Hello'', lit ''  '']"

section \<open>The scheduling engine\<close>

text \<open>
  Modelled from the spec: the statuses of a Job (section 3);
  \<^verbatim>\<open>app/scheduler.py\<close>, which holds the scheduling engine, is
  not among the sources.
\<close>

datatype status = PENDING | DUE | SENT | FAILED | SKIPPED

text \<open>
  Modelled from the spec: the Job record of section 3 (the source of
  \<^verbatim>\<open>app/scheduler.py\<close> is missing). The fields
  \<open>message\<close> and \<open>image\<close> of the spec are
  \<open>message_text\<close> and \<open>image_ref\<close> here. The time is a number
  of seconds; \<open>None\<close> is a blank \<open>scheduled_at\<close> or a blank
  image.
\<close>

record job =
  recipient :: string
  message_text :: string
  image_ref :: "string option"
  scheduled_at :: "nat option"
  status :: status
  attempts :: nat
  last_error :: "string option"

text \<open>
  Modelled from the spec: the \<open>Outcome\<close> of \<open>dispatch(job)\<close>
  (section 4.2), whose code is missing.
\<close>

record outcome =
  success :: bool
  error :: "string option"

text \<open>
  Modelled from the spec: what the missing engine takes from outside (sections 4.2 and
  4.3, design notes): the Dispatch Gateway, asked for a row and its Job, so that two
  equal rows may be answered differently; the sampled delay before the
  \<open>n\<close>-th dispatch of a run; and the time the gateway takes for a row.
\<close>

record env =
  gateway :: "nat \<Rightarrow> job \<Rightarrow> outcome"
  delay :: "nat \<Rightarrow> nat"
  duration :: "nat \<Rightarrow> nat"

text \<open>
  Modelled from the spec: the state of the missing engine: the queue in source order,
  mutated in place (section 3), the clock, and the rows in the order of their dispatch
  calls.
\<close>

record engine =
  jobs :: "job list"
  now :: nat
  dispatched :: "nat list"

text \<open>
  Modelled from the spec: steps 2 to 4 of the dispatch sequence of section 4.3 (code
  missing): the Job is marked \<open>DUE\<close>, the gateway is called once,
  \<open>attempts\<close> is incremented, and the Job becomes \<open>SENT\<close>, or
  \<open>FAILED\<close> with the error recorded.
\<close>

definition settle :: "env \<Rightarrow> nat \<Rightarrow> job \<Rightarrow> job" where
  "settle ev i j =
     (let due = j\<lparr>status := DUE\<rparr>;
          out = gateway ev i due
      in if success out
         then due\<lparr>attempts := attempts due + 1, status := SENT\<rparr>
         else due\<lparr>attempts := attempts due + 1, status := FAILED, last_error := error out\<rparr>)"

text \<open>
  Modelled from the spec: the dispatch sequence of section 4.3 for one row (code
  missing): the delay, skipped for the first dispatch of a run, then the call; the
  clock advances by both.
\<close>

definition dispatch_job :: "env \<Rightarrow> nat \<Rightarrow> engine \<Rightarrow> engine" where
  "dispatch_job ev i st =
     (let d = (if dispatched st = [] then 0 else delay ev (length (dispatched st)))
      in st\<lparr>jobs := (jobs st)[i := settle ev i (jobs st ! i)],
            now := now st + d + duration ev i,
            dispatched := dispatched st @ [i]\<rparr>)"

text \<open>
  Modelled from the spec: the queue as the parser hands it over (section 3,
  lifecycle); the engine code is missing.
\<close>

definition start :: "job list \<Rightarrow> nat \<Rightarrow> engine" where
  "start js t0 = \<lparr>jobs = js, now = t0, dispatched = []\<rparr>"

text \<open>
  Modelled from the spec: immediate mode (section 4.3, code missing): the rows are
  visited in source order and every \<open>PENDING\<close> one is dispatched, whatever
  its \<open>scheduled_at\<close>.
\<close>

fun immediate_from :: "env \<Rightarrow> nat list \<Rightarrow> engine \<Rightarrow> engine" where
  "immediate_from ev [] st = st"
| "immediate_from ev (i # rows) st =
     immediate_from ev rows
       (if status (jobs st ! i) = PENDING then dispatch_job ev i st else st)"

text \<open>
  Modelled from the spec: a run in immediate mode over the whole queue (section 4.3,
  code missing).
\<close>

definition run_immediate :: "env \<Rightarrow> job list \<Rightarrow> nat \<Rightarrow> engine" where
  "run_immediate ev js t0 = immediate_from ev [0..<length js] (start js t0)"

text \<open>
  Modelled from the spec: a Job is due when it is still \<open>PENDING\<close> and its
  \<open>scheduled_at\<close> is blank or not after the current time (section 4.3,
  glossary; code missing).
\<close>

definition is_due :: "nat \<Rightarrow> job \<Rightarrow> bool" where
  "is_due t j =
     (status j = PENDING \<and> (case scheduled_at j of None \<Rightarrow> True | Some s \<Rightarrow> s \<le> t))"

text \<open>
  Modelled from the spec: the time at which a Job counts as scheduled when the queue
  is scanned at time \<open>t\<close> (sections 4.1 and 4.3, code missing). A blank
  \<open>scheduled_at\<close> is "treated as immediately due": it counts as the time of the
  scan. So among due Jobs a blank one never goes before a Job whose set time has
  arrived and that comes before it in the source (the scenario of section 8:
  "row1 first once due"), and blank times tie with each other.
\<close>

definition due_time :: "nat \<Rightarrow> job \<Rightarrow> nat" where
  "due_time t j = (case scheduled_at j of None \<Rightarrow> t | Some s \<Rightarrow> s)"

text \<open>
  Modelled from the spec: "selects the one with the earliest \<open>scheduled_at\<close>
  (ties broken by original order)" (section 4.3, code missing), for a scan at time
  \<open>t\<close>: a later row replaces an earlier one only when its time is strictly
  earlier.
\<close>

fun earliest :: "nat \<Rightarrow> job list \<Rightarrow> nat list \<Rightarrow> nat option" where
  "earliest t js [] = None"
| "earliest t js (i # rows) =
     (case earliest t js rows of
        None \<Rightarrow> Some i
      | Some k \<Rightarrow>
          if due_time t (js ! k) < due_time t (js ! i) then Some k else Some i)"

text \<open>
  Modelled from the spec: the rows still \<open>PENDING\<close>, in source order
  (section 4.3, code missing).
\<close>

definition pending_rows :: "engine \<Rightarrow> nat list" where
  "pending_rows st = filter (\<lambda>i. status (jobs st ! i) = PENDING) [0..<length (jobs st)]"

text \<open>
  Modelled from the spec: the result of one scan of the queue for due Jobs, in source
  order (section 4.3, code missing).
\<close>

definition due_rows :: "engine \<Rightarrow> nat list" where
  "due_rows st = filter (\<lambda>i. is_due (now st) (jobs st ! i)) [0..<length (jobs st)]"

text \<open>
  Modelled from the spec: the clock after a suspension that lasts until the given
  \<open>scheduled_at\<close> arrives (section 4.3 step 5 and section 5; code
  missing).
\<close>

definition wake_at :: "nat \<Rightarrow> nat option \<Rightarrow> nat" where
  "wake_at t s = (case s of None \<Rightarrow> t | Some u \<Rightarrow> max t u)"

text \<open>
  Modelled from the spec: scheduled mode (section 4.3, code missing). The engine scans
  for due Jobs and dispatches the earliest; when none is due it suspends until the
  earliest pending \<open>scheduled_at\<close> and scans again; it ends when no Job is
  \<open>PENDING\<close>.
\<close>

function run_scheduled_from :: "env \<Rightarrow> engine \<Rightarrow> engine" where
  "run_scheduled_from ev st =
     (case earliest (now st) (jobs st) (due_rows st) of
        Some i \<Rightarrow> run_scheduled_from ev (dispatch_job ev i st)
      | None \<Rightarrow>
          (case earliest (now st) (jobs st) (pending_rows st) of
             None \<Rightarrow> st
           | Some k \<Rightarrow>
               run_scheduled_from ev (st\<lparr>now := wake_at (now st) (scheduled_at (jobs st ! k))\<rparr>)))"
  by pat_completeness auto

text \<open>
  Modelled from the spec: a run in scheduled mode over the whole queue, started at
  time \<open>t0\<close> (section 4.3, code missing).
\<close>

definition run_scheduled :: "env \<Rightarrow> job list \<Rightarrow> nat \<Rightarrow> engine" where
  "run_scheduled ev js t0 = run_scheduled_from ev (start js t0)"

text \<open>
  In a list of rows, \<open>a\<close> comes before \<open>b\<close>: the first of the
  two to occur is \<open>a\<close>, and \<open>b\<close> occurs after it.
\<close>

fun before :: "'a \<Rightarrow> 'a \<Rightarrow> 'a list \<Rightarrow> bool" where
  "before a b [] = False"
| "before a b (x # xs) =
     (if x = a then b \<in> set xs else if x = b then False else before a b xs)"

text \<open>
  What a run leaves in each row: a closed form, proved equal to the queue after a run
  of either mode in \<open>jobs_run_immediate\<close> and
  \<open>jobs_run_scheduled\<close> below.
\<close>

definition settled :: "env \<Rightarrow> job list \<Rightarrow> job list" where
  "settled ev js =
     map (\<lambda>i. if status (js ! i) = PENDING then settle ev i (js ! i) else js ! i) [0..<length js]"

text \<open>
  Three rows, the first and the third with the same time, and a gateway that fails
  for the second row.
\<close>

definition sample_jobs :: "job list" where
  "sample_jobs =
     [\<lparr>recipient = ''+1-555-0100'', message_text = ''Hello'', image_ref = None,
        scheduled_at = Some 900, status = PENDING, attempts = 0, last_error = None\<rparr>,
      \<lparr>recipient = ''5550101'', message_text = ''Hi'', image_ref = Some ''img.png'',
        scheduled_at = Some 600, status = PENDING, attempts = 0, last_error = None\<rparr>,
      \<lparr>recipient = ''5550102'', message_text = ''Bye'', image_ref = None,
        scheduled_at = Some 900, status = PENDING, attempts = 0, last_error = None\<rparr>]"

definition sample_env :: env where
  "sample_env =
     \<lparr>gateway = (\<lambda>i j. if i = 1 then \<lparr>success = False, error = Some ''exit status 1''\<rparr>
                        else \<lparr>success = True, error = None\<rparr>),
      delay = (\<lambda>n. 7),
      duration = (\<lambda>i. 20)\<rparr>"

text \<open>
  The scenario of section 8 of the spec: a row with a set time, then a row with a
  blank one.
\<close>

definition two_rows :: "job list" where
  "two_rows =
     [\<lparr>recipient = ''+1-555-0100'', message_text = ''Hello'', image_ref = None,
        scheduled_at = Some 900, status = PENDING, attempts = 0, last_error = None\<rparr>,
      \<lparr>recipient = ''5550101'', message_text = ''Hi'', image_ref = Some ''img.png'',
        scheduled_at = None, status = PENDING, attempts = 0, last_error = None\<rparr>]"

section \<open>The run of the command, case by case\<close>

lemmas prim_defs = and_then_def try_catch_def emit_def await_def process_exit_def
  wa_create_def send_text_def send_image_def client_kill_def exists_sync_def ret_def throw_def

lemma caught:
  "count_list tr ClientKill = k \<Longrightarrow>
   try_catch (catch_block w e) on_rejected tr = (Exit 1, tr @ fail_tail w e k)"
  by (simp add: catch_block_def on_rejected_def fail_tail_def prim_defs split: option.splits)

lemma image_step_append:
  "image_step w to phone msg ip tr =
     (fst (image_step w to phone msg ip []), tr @ snd (image_step w to phone msg ip []))"
  by (simp add: image_step_def resolve_image_def prim_defs Let_def split: option.splits)

lemma image_step_no_exit: "fst (image_step w to phone msg ip []) \<noteq> Exit n"
  by (simp add: image_step_def resolve_image_def prim_defs Let_def split: option.splits)

lemma image_step_no_kill: "count_list (snd (image_step w to phone msg ip [])) ClientKill = 0"
  by (simp add: image_step_def resolve_image_def prim_defs Let_def split: option.splits)

lemma main_usage:
  "length args < 2 \<Longrightarrow>
   main w args = (Exit 1, [ConsoleError [Str (lit ''Usage: node send_message.cjs <phone> <message> [image]'')], ProcessExit 1])"
  by (simp add: main_def prim_defs)

lemma main_create_rejects:
  "2 \<le> length args \<Longrightarrow> create_result w = Some e \<Longrightarrow>
   main w args = (Exit 1, [WaCreate, ConsoleError [Str (lit ''Error initializing wa-automate:''), Err e], ProcessExit 1])"
  by (simp add: main_def on_rejected_def prim_defs)

lemma main_created:
  "2 \<le> length args \<Longrightarrow> create_result w = None \<Longrightarrow>
   main w args = try_catch (on_client w (args ! 0) (args ! 1) (arg args 2)) on_rejected [WaCreate]"
  by (simp add: main_def prim_defs)

lemma try_catch_nested:
  "p tr = (Throw e, tr') \<Longrightarrow> count_list tr' ClientKill = k \<Longrightarrow>
   try_catch (try_catch p (catch_block w)) on_rejected tr = (Exit 1, tr' @ fail_tail w e k)"
  using caught [of tr' k w e] by (simp add: try_catch_def split: prod.splits completion.splits)

lemma try_catch_exit:
  "p tr = (Exit n, tr') \<Longrightarrow> try_catch (try_catch p h) h' tr = (Exit n, tr')"
  by (simp add: try_catch_def)

lemma main_text_rejects:
  assumes "2 \<le> length args" "create_result w = None"
    and "sendText_result w (cleanPhone (args ! 0)) (args ! 1) = Some e"
  shows "main w args = (Exit 1, [WaCreate, SendText (cleanPhone (args ! 0)) (args ! 1)] @ fail_tail w e 0)"
proof -
  have "try_block w (args ! 0) (args ! 1) (arg args 2) [WaCreate]
        = (Throw e, [WaCreate, SendText (cleanPhone (args ! 0)) (args ! 1)])"
    using assms(3) by (simp add: try_block_def prim_defs)
  from try_catch_nested [where p = "try_block w (args ! 0) (args ! 1) (arg args 2)" and tr = "[WaCreate]", OF this, of 0 w] show ?thesis
    using assms(1,2) by (simp add: main_created on_client_def)
qed

lemma main_image_throws:
  assumes "2 \<le> length args" "create_result w = None"
    and "sendText_result w (cleanPhone (args ! 0)) (args ! 1) = None"
    and "image_step w (cleanPhone (args ! 0)) (args ! 0) (args ! 1) (arg args 2) [] = (Throw e, ies)"
  shows "main w args = (Exit 1, [WaCreate, SendText (cleanPhone (args ! 0)) (args ! 1),
            ConsoleLog [Str (lit ''Message sent to '' @ args ! 0)]] @ ies @ fail_tail w e 0)"
proof -
  let ?pre = "[WaCreate, SendText (cleanPhone (args ! 0)) (args ! 1),
            ConsoleLog [Str (lit ''Message sent to '' @ args ! 0)]]"
  have k: "count_list ies ClientKill = 0"
    using image_step_no_kill [of w "cleanPhone (args ! 0)" "args ! 0" "args ! 1" "arg args 2"] assms(4) by simp
  have "try_block w (args ! 0) (args ! 1) (arg args 2) [WaCreate] = (Throw e, ?pre @ ies)"
    using assms(3,4) image_step_append [of w "cleanPhone (args ! 0)" "args ! 0" "args ! 1" "arg args 2" ?pre]
    by (simp add: try_block_def prim_defs)
  from try_catch_nested [where p = "try_block w (args ! 0) (args ! 1) (arg args 2)" and tr = "[WaCreate]", OF this, of 0 w] k show ?thesis
    using assms(1,2) by (simp add: main_created on_client_def)
qed

lemma main_image_done:
  assumes "2 \<le> length args" "create_result w = None"
    and "sendText_result w (cleanPhone (args ! 0)) (args ! 1) = None"
    and "image_step w (cleanPhone (args ! 0)) (args ! 0) (args ! 1) (arg args 2) [] = (Normal u, ies)"
  shows "main w args =
     (case kill_result w 0 of
        None \<Rightarrow> (Exit 0, [WaCreate, SendText (cleanPhone (args ! 0)) (args ! 1),
            ConsoleLog [Str (lit ''Message sent to '' @ args ! 0)]] @ ies @
            [ConsoleLog [Str (lit ''Waiting 15 seconds to ensure message delivery...'')],
             Wait 15000, ClientKill, ProcessExit 0])
      | Some e \<Rightarrow> (Exit 1, [WaCreate, SendText (cleanPhone (args ! 0)) (args ! 1),
            ConsoleLog [Str (lit ''Message sent to '' @ args ! 0)]] @ ies @
            [ConsoleLog [Str (lit ''Waiting 15 seconds to ensure message delivery...'')],
             Wait 15000, ClientKill] @ fail_tail w e 1))"
proof -
  let ?pre = "[WaCreate, SendText (cleanPhone (args ! 0)) (args ! 1),
            ConsoleLog [Str (lit ''Message sent to '' @ args ! 0)]]"
  let ?wait = "[ConsoleLog [Str (lit ''Waiting 15 seconds to ensure message delivery...'')], Wait 15000, ClientKill]"
  have k: "count_list ies ClientKill = 0"
    using image_step_no_kill [of w "cleanPhone (args ! 0)" "args ! 0" "args ! 1" "arg args 2"] assms(4) by simp
  note app = image_step_append [of w "cleanPhone (args ! 0)" "args ! 0" "args ! 1" "arg args 2" ?pre]
  show ?thesis
  proof (cases "kill_result w 0")
    case None
    have "try_block w (args ! 0) (args ! 1) (arg args 2) [WaCreate] = (Exit 0, ?pre @ ies @ ?wait @ [ProcessExit 0])"
      using assms(3,4) app k None by (simp add: try_block_def prim_defs)
    from try_catch_exit [where p = "try_block w (args ! 0) (args ! 1) (arg args 2)" and tr = "[WaCreate]", OF this] show ?thesis
      using assms(1,2) None by (simp add: main_created on_client_def)
  next
    case (Some e)
    have "try_block w (args ! 0) (args ! 1) (arg args 2) [WaCreate] = (Throw e, ?pre @ ies @ ?wait)"
      using assms(3,4) app k Some by (simp add: try_block_def prim_defs)
    from try_catch_nested [where p = "try_block w (args ! 0) (args ! 1) (arg args 2)" and tr = "[WaCreate]", OF this, of 1 w] k show ?thesis
      using assms(1,2) Some by (simp add: main_created on_client_def)
  qed
qed

lemma lit_eq_Nil [simp]: "lit s = [] \<longleftrightarrow> s = []"
  by (simp add: lit_def)

lemma image_step_blank:
  "\<not> has_image ip \<Longrightarrow> image_step w to phone msg ip [] = (Normal (), [])"
  by (cases ip) (simp_all add: image_step_def ret_def)

lemma image_step_url:
  "has_image (Some p) \<Longrightarrow> regex_test url_pattern p \<Longrightarrow>
   image_step w to phone msg (Some p) [] =
     (case sendImage_result w to p (path_basename w p) msg of
        None \<Rightarrow> (Normal (), [SendImage to p (path_basename w p) msg,
                   ConsoleLog [Str (lit ''Image sent to '' @ phone)]])
      | Some e \<Rightarrow> (Throw e, [SendImage to p (path_basename w p) msg]))"
  by (simp add: image_step_def resolve_image_def prim_defs split: option.splits)

lemma image_step_missing:
  "has_image (Some p) \<Longrightarrow> \<not> regex_test url_pattern p \<Longrightarrow>
   \<not> existsSync w (path_resolve w p) \<Longrightarrow>
   image_step w to phone msg (Some p) [] =
     (Throw (JsError (lit ''Image file not found: '' @ path_resolve w p)),
      [ExistsSync (path_resolve w p)])"
  by (simp add: image_step_def resolve_image_def prim_defs Let_def)

lemma image_step_local:
  "has_image (Some p) \<Longrightarrow> \<not> regex_test url_pattern p \<Longrightarrow>
   existsSync w (path_resolve w p) \<Longrightarrow>
   image_step w to phone msg (Some p) [] =
     (case sendImage_result w to (path_resolve w p) (path_basename w (path_resolve w p)) msg of
        None \<Rightarrow> (Normal (), [ExistsSync (path_resolve w p),
                   SendImage to (path_resolve w p) (path_basename w (path_resolve w p)) msg,
                   ConsoleLog [Str (lit ''Image sent to '' @ phone)]])
      | Some e \<Rightarrow> (Throw e, [ExistsSync (path_resolve w p),
                   SendImage to (path_resolve w p) (path_basename w (path_resolve w p)) msg]))"
  by (simp add: image_step_def resolve_image_def prim_defs Let_def split: option.splits)

text \<open>The image reference handed to the image send.\<close>

lemma image_step_io:
  "filter is_io (snd (image_step w to phone msg ip [])) =
     (case ip of
        None \<Rightarrow> []
      | Some p \<Rightarrow>
          if \<not> has_image ip then []
          else if regex_test url_pattern p then [SendImage to p (path_basename w p) msg]
          else if existsSync w (path_resolve w p)
            then [ExistsSync (path_resolve w p),
                  SendImage to (path_resolve w p) (path_basename w (path_resolve w p)) msg]
          else [ExistsSync (path_resolve w p)])"
proof (cases ip)
  case None
  then show ?thesis by (simp add: image_step_blank has_image_def)
next
  case (Some p)
  then show ?thesis
    by (simp add: image_step_blank image_step_url image_step_missing image_step_local is_io_def
        split: option.splits)
qed

lemma fail_tail_io [simp]: "filter is_io (fail_tail w e k) = []"
  by (simp add: fail_tail_def is_io_def split: option.splits)

lemma image_step_cases:
  obtains e ies where "image_step w to phone msg ip [] = (Throw e, ies)"
  | ies where "image_step w to phone msg ip [] = (Normal (), ies)"
  using image_step_no_exit [of w to phone msg ip]
  by (cases "image_step w to phone msg ip []"; cases "fst (image_step w to phone msg ip [])") auto

lemma io_trace:
  assumes "2 \<le> length args"
  shows "filter is_io (trace (main w args)) =
     (if create_result w \<noteq> None then []
      else SendText (cleanPhone (args ! 0)) (args ! 1) #
        (if sendText_result w (cleanPhone (args ! 0)) (args ! 1) \<noteq> None then []
         else filter is_io (snd (image_step w (cleanPhone (args ! 0)) (args ! 0) (args ! 1) (arg args 2) []))))"
proof (cases "create_result w")
  case (Some e)
  then show ?thesis using assms by (simp add: main_create_rejects trace_def is_io_def)
next
  case None
  note created = this
  show ?thesis
  proof (cases "sendText_result w (cleanPhone (args ! 0)) (args ! 1)")
    case (Some e)
    then show ?thesis using assms created by (simp add: main_text_rejects trace_def is_io_def)
  next
    case None
    show ?thesis
    proof (cases rule: image_step_cases [of w "cleanPhone (args ! 0)" "args ! 0" "args ! 1" "arg args 2"])
      case (1 e ies)
      then show ?thesis using assms created None
        by (simp add: main_image_throws trace_def) (simp add: is_io_def)
    next
      case (2 ies)
      then show ?thesis using assms created None
        by (simp add: main_image_done trace_def split: option.splits) (simp add: is_io_def)
    qed
  qed
qed

section \<open>Strings, patterns and the exit status\<close>

lemma replace_all_filter: "replace_all (\<lambda>c. \<not> keep c) [] s = filter keep s"
  by (induction s) simp_all

lemma cleanPhone_filter: "cleanPhone phone = filter is_digit phone @ lit ''@c.us''"
  by (simp add: cleanPhone_def replace_all_filter)

lemma regex_test_Chr:
  "regex_test (Chr c # ps) s \<longleftrightarrow> (\<exists>xs. s = c # xs \<and> regex_test ps xs)"
  by (cases s) auto

lemma regex_test_Opt:
  "regex_test (Opt c # ps) s \<longleftrightarrow> (\<exists>xs. s = c # xs \<and> regex_test ps xs) \<or> regex_test ps s"
  by (cases s) auto

lemma url_pattern_prefix:
  "regex_test url_pattern s \<longleftrightarrow> (\<exists>t. s = lit ''http://'' @ t \<or> s = lit ''https://'' @ t)"
  unfolding url_pattern_def regex_test_Chr regex_test_Opt by (auto simp: lit_def)

lemma trim_eq_Nil: "trim s = [] \<longleftrightarrow> (\<forall>c\<in>set s. is_js_space c)"
proof -
  have "dropWhile is_js_space (rev (dropWhile is_js_space s)) = [] \<longleftrightarrow> dropWhile is_js_space s = []"
  proof
    assume a: "dropWhile is_js_space (rev (dropWhile is_js_space s)) = []"
    show "dropWhile is_js_space s = []"
    proof (rule ccontr)
      assume "dropWhile is_js_space s \<noteq> []"
      then have "\<not> is_js_space (hd (dropWhile is_js_space s))"
        by (rule hd_dropWhile)
      moreover have "hd (dropWhile is_js_space s) \<in> set (rev (dropWhile is_js_space s))"
        using \<open>dropWhile is_js_space s \<noteq> []\<close> by simp
      ultimately show False using a by (simp add: dropWhile_eq_Nil_conv)
    qed
  qed (auto dest: set_dropWhileD)
  then show ?thesis by (simp add: trim_def dropWhile_eq_Nil_conv)
qed

lemma has_image_iff:
  "has_image ip \<longleftrightarrow> (\<exists>s. ip = Some s \<and> (\<exists>c\<in>set s. \<not> is_js_space c))"
  by (cases ip) (auto simp: has_image_def trim_eq_Nil)

lemma has_image_arg: "has_image (arg args 2) \<Longrightarrow> 2 < length args \<and> arg args 2 = Some (args ! 2)"
  by (simp add: has_image_def arg_def split: if_splits)

lemma image_step_ok:
  "fst (image_step w to phone msg ip []) = Normal () \<longleftrightarrow>
     (has_image ip \<longrightarrow>
        (regex_test url_pattern (the ip) \<and>
           sendImage_result w to (the ip) (path_basename w (the ip)) msg = None) \<or>
        (\<not> regex_test url_pattern (the ip) \<and> existsSync w (path_resolve w (the ip)) \<and>
           sendImage_result w to (path_resolve w (the ip))
             (path_basename w (path_resolve w (the ip))) msg = None))"
proof (cases "has_image ip")
  case False
  then show ?thesis by (simp add: image_step_blank)
next
  case True
  then obtain p where "ip = Some p" by (auto simp: has_image_iff)
  with True show ?thesis
    by (cases "regex_test url_pattern p"; cases "existsSync w (path_resolve w p)")
       (simp_all add: image_step_url image_step_missing image_step_local split: option.splits)
qed

lemma main_exit_status:
  assumes "2 \<le> length args"
  shows "exit_status (main w args) =
     Some (if create_result w = None \<and>
              sendText_result w (cleanPhone (args ! 0)) (args ! 1) = None \<and>
              fst (image_step w (cleanPhone (args ! 0)) (args ! 0) (args ! 1) (arg args 2) []) = Normal () \<and>
              kill_result w 0 = None
           then 0 else 1)"
proof (cases "create_result w")
  case (Some e)
  then show ?thesis using assms by (simp add: main_create_rejects exit_status_def)
next
  case None
  note created = this
  show ?thesis
  proof (cases "sendText_result w (cleanPhone (args ! 0)) (args ! 1)")
    case (Some e)
    then show ?thesis using assms created by (simp add: main_text_rejects exit_status_def)
  next
    case None
    show ?thesis
    proof (cases rule: image_step_cases [of w "cleanPhone (args ! 0)" "args ! 0" "args ! 1" "arg args 2"])
      case (1 e ies)
      then show ?thesis using assms created None
        by (simp add: main_image_throws exit_status_def)
    next
      case (2 ies)
      then show ?thesis using assms created None
        by (simp add: main_image_done exit_status_def split: option.splits)
    qed
  qed
qed

section \<open>The claims about the dispatch command\<close>

lemmas run_defs = main_def on_client_def try_block_def catch_block_def on_rejected_def
  image_step_def resolve_image_def has_image_def arg_def prim_defs exit_status_def trace_def
  cleanPhone_def trim_def is_js_space_def is_digit_def url_pattern_def lit_def Let_def

lemma url_pattern_take:
  "regex_test url_pattern s \<longleftrightarrow> take 7 s = lit ''http://'' \<or> take 8 s = lit ''https://''"
proof -
  have l: "length (lit ''http://'') = 7" "length (lit ''https://'') = 8"
    by (simp_all add: lit_def)
  show ?thesis
  proof
    assume "regex_test url_pattern s"
    then obtain t where "s = lit ''http://'' @ t \<or> s = lit ''https://'' @ t"
      by (auto simp: url_pattern_prefix)
    then show "take 7 s = lit ''http://'' \<or> take 8 s = lit ''https://''"
      using l by auto
  next
    assume "take 7 s = lit ''http://'' \<or> take 8 s = lit ''https://''"
    then have "s = lit ''http://'' @ drop 7 s \<or> s = lit ''https://'' @ drop 8 s"
      by (metis append_take_drop_id)
    then show "regex_test url_pattern s"
      unfolding url_pattern_prefix by blast
  qed
qed

lemma filter_image_io: "filter is_image_io (filter is_io xs) = filter is_image_io xs"
  by (induction xs) (simp_all add: is_io_def)

lemma filter_send_io: "filter is_send (filter is_io xs) = filter is_send xs"
  by (induction xs) (simp_all add: is_io_def)

lemma recipient_io: "chat_of ev = Some to \<Longrightarrow> is_io ev"
  by (cases ev) (simp_all add: is_io_def)

lemma io_trace_usage: "length args < 2 \<Longrightarrow> filter is_io (trace (main w args)) = []"
  by (simp add: main_usage trace_def is_io_def)

text \<open>
  C8: with fewer than two positional arguments the command prints the usage line
  and exits with status 1; the session is never created and nothing is sent: the
  two events below are the whole run.
\<close>

theorem usage_before_session:
  assumes "length args < 2"
  shows "trace (main w args) =
           [ConsoleError [Str (lit ''Usage: node send_message.cjs <phone> <message> [image]'')],
            ProcessExit 1]
         \<and> exit_status (main w args) = Some 1
         \<and> WaCreate \<notin> set (trace (main w args))
         \<and> filter is_io (trace (main w args)) = []"
  using assms by (simp add: main_usage trace_def exit_status_def is_io_def)

theorem usage_before_session_witness:
  "length [lit ''+1-555-0100''] < 2
   \<and> trace (main world_ok [lit ''+1-555-0100'']) =
       [ConsoleError [Str (lit ''Usage: node send_message.cjs <phone> <message> [image]'')],
        ProcessExit 1]
   \<and> exit_status (main world_ok [lit ''+1-555-0100'']) = Some 1"
  using usage_before_session [of "[lit ''+1-555-0100'']" world_ok] by simp

text \<open>
  C3: whatever the phone argument is, the chat identifier of every send of the run
  (the text send and the image send) is the digits of the raw phone string, in
  their order, followed by \<^verbatim>\<open>@c.us\<close>.
\<close>

theorem recipient_is_clean_phone:
  "cleanPhone (args ! 0) = filter is_digit (args ! 0) @ lit ''@c.us''
   \<and> (\<forall>ev\<in>set (trace (main w args)). \<forall>to.
         chat_of ev = Some to \<longrightarrow> to = filter is_digit (args ! 0) @ lit ''@c.us'')"
proof (intro conjI ballI allI impI)
  show "cleanPhone (args ! 0) = filter is_digit (args ! 0) @ lit ''@c.us''"
    by (rule cleanPhone_filter)
next
  fix ev to
  assume ev: "ev \<in> set (trace (main w args))" and r: "chat_of ev = Some to"
  then have mem: "ev \<in> set (filter is_io (trace (main w args)))"
    by (simp add: recipient_io)
  show "to = filter is_digit (args ! 0) @ lit ''@c.us''"
  proof (cases "length args < 2")
    case True
    with mem show ?thesis by (simp add: io_trace_usage)
  next
    case False
    then have "2 \<le> length args" by simp
    from mem r show ?thesis
      unfolding io_trace [OF \<open>2 \<le> length args\<close>] image_step_io
      by (auto simp: cleanPhone_filter split: if_splits option.splits)
  qed
qed

theorem recipient_is_clean_phone_witness:
  "SendText (lit ''15550100@c.us'') (lit ''Hello'') \<in> set (trace (main world_ok args_photo))
   \<and> SendImage (lit ''15550100@c.us'') (lit ''/srv/wa/photo.png'') (lit ''photo.png'') (lit ''Hello'')
       \<in> set (trace (main world_ok args_photo))
   \<and> filter is_digit (args_photo ! 0) @ lit ''@c.us'' = lit ''15550100@c.us''"
  using recipient_is_clean_phone [of args_photo world_ok]
  by (simp add: run_defs world_ok_def args_photo_def)

lemma image_io_trace:
  assumes "has_image (arg args 2)"
  shows "filter is_io (trace (main w args)) =
     (if create_result w \<noteq> None then []
      else SendText (cleanPhone (args ! 0)) (args ! 1) #
        (if sendText_result w (cleanPhone (args ! 0)) (args ! 1) \<noteq> None then []
         else if regex_test url_pattern (args ! 2)
           then [SendImage (cleanPhone (args ! 0)) (args ! 2) (path_basename w (args ! 2)) (args ! 1)]
         else if existsSync w (path_resolve w (args ! 2))
           then [ExistsSync (path_resolve w (args ! 2)),
                 SendImage (cleanPhone (args ! 0)) (path_resolve w (args ! 2))
                   (path_basename w (path_resolve w (args ! 2))) (args ! 1)]
         else [ExistsSync (path_resolve w (args ! 2))]))"
proof -
  from has_image_arg [OF assms] have len: "2 \<le> length args" and a: "arg args 2 = Some (args ! 2)"
    by simp_all
  show ?thesis
    using assms unfolding io_trace [OF len] image_step_io a by simp
qed

text \<open>
  C6: for a non-blank image argument, the pattern of line 44 holds exactly when the
  argument begins with \<^verbatim>\<open>http://\<close> or
  \<^verbatim>\<open>https://\<close>. Once the session exists and the text is sent, a
  URL is handed to the image send as it is and no file is looked up; any other
  argument is first passed through \<^verbatim>\<open>path.resolve\<close>, and the
  resolved path alone is looked up and, when it exists, sent. The look-up and the
  image send are the only events of the image step, so nothing else touches the
  argument.
\<close>

theorem image_reference_resolution:
  assumes "has_image (arg args 2)"
  shows "(regex_test url_pattern (args ! 2) \<longleftrightarrow>
            take 7 (args ! 2) = lit ''http://'' \<or> take 8 (args ! 2) = lit ''https://'')
   \<and> filter is_image_io (trace (main w args)) =
       (if create_result w = None \<and> sendText_result w (cleanPhone (args ! 0)) (args ! 1) = None
        then
          if regex_test url_pattern (args ! 2)
            then [SendImage (cleanPhone (args ! 0)) (args ! 2) (path_basename w (args ! 2)) (args ! 1)]
          else if existsSync w (path_resolve w (args ! 2))
            then [ExistsSync (path_resolve w (args ! 2)),
                  SendImage (cleanPhone (args ! 0)) (path_resolve w (args ! 2))
                    (path_basename w (path_resolve w (args ! 2))) (args ! 1)]
          else [ExistsSync (path_resolve w (args ! 2))]
        else [])"
proof
  show "regex_test url_pattern (args ! 2) \<longleftrightarrow>
          take 7 (args ! 2) = lit ''http://'' \<or> take 8 (args ! 2) = lit ''https://''"
    by (rule url_pattern_take)
next
  have "filter is_image_io (trace (main w args)) =
          filter is_image_io (filter is_io (trace (main w args)))"
    by (simp only: filter_image_io)
  also have "\<dots> =
       (if create_result w = None \<and> sendText_result w (cleanPhone (args ! 0)) (args ! 1) = None
        then
          if regex_test url_pattern (args ! 2)
            then [SendImage (cleanPhone (args ! 0)) (args ! 2) (path_basename w (args ! 2)) (args ! 1)]
          else if existsSync w (path_resolve w (args ! 2))
            then [ExistsSync (path_resolve w (args ! 2)),
                  SendImage (cleanPhone (args ! 0)) (path_resolve w (args ! 2))
                    (path_basename w (path_resolve w (args ! 2))) (args ! 1)]
          else [ExistsSync (path_resolve w (args ! 2))]
        else [])"
    unfolding image_io_trace [OF assms] by simp
  finally show "filter is_image_io (trace (main w args)) =
       (if create_result w = None \<and> sendText_result w (cleanPhone (args ! 0)) (args ! 1) = None
        then
          if regex_test url_pattern (args ! 2)
            then [SendImage (cleanPhone (args ! 0)) (args ! 2) (path_basename w (args ! 2)) (args ! 1)]
          else if existsSync w (path_resolve w (args ! 2))
            then [ExistsSync (path_resolve w (args ! 2)),
                  SendImage (cleanPhone (args ! 0)) (path_resolve w (args ! 2))
                    (path_basename w (path_resolve w (args ! 2))) (args ! 1)]
          else [ExistsSync (path_resolve w (args ! 2))]
        else [])" .
qed

theorem image_reference_resolution_witness:
  "has_image (arg args_url 2) \<and> has_image (arg args_photo 2)
   \<and> filter is_image_io (trace (main world_ok args_url)) =
       [SendImage (lit ''15550100@c.us'') (lit ''https://example.org/a.png'') (lit ''a.png'')
          (lit ''Hello'')]
   \<and> filter is_image_io (trace (main world_ok args_photo)) =
       [ExistsSync (lit ''/srv/wa/photo.png''),
        SendImage (lit ''15550100@c.us'') (lit ''/srv/wa/photo.png'') (lit ''photo.png'')
          (lit ''Hello'')]"
proof -
  have u: "has_image (arg args_url 2)" and p: "has_image (arg args_photo 2)"
    by (simp_all add: has_image_def arg_def args_url_def args_photo_def trim_def is_js_space_def lit_def)
  show ?thesis
    using u p image_reference_resolution [OF u, of world_ok]
      image_reference_resolution [OF p, of world_ok]
    by (simp add: world_ok_def args_url_def args_photo_def cleanPhone_def is_digit_def
        url_pattern_def lit_def)
qed

lemma main_no_image:
  assumes "2 \<le> length args" "\<not> has_image (arg args 2)"
  shows "main w args =
     (case create_result w of
        Some e \<Rightarrow> (Exit 1, [WaCreate,
                     ConsoleError [Str (lit ''Error initializing wa-automate:''), Err e],
                     ProcessExit 1])
      | None \<Rightarrow>
          (case sendText_result w (cleanPhone (args ! 0)) (args ! 1) of
             Some e \<Rightarrow> (Exit 1, [WaCreate, SendText (cleanPhone (args ! 0)) (args ! 1)] @ fail_tail w e 0)
           | None \<Rightarrow>
               (case kill_result w 0 of
                  None \<Rightarrow> (Exit 0, [WaCreate, SendText (cleanPhone (args ! 0)) (args ! 1),
                      ConsoleLog [Str (lit ''Message sent to '' @ args ! 0)],
                      ConsoleLog [Str (lit ''Waiting 15 seconds to ensure message delivery...'')],
                      Wait 15000, ClientKill, ProcessExit 0])
                | Some e \<Rightarrow> (Exit 1, [WaCreate, SendText (cleanPhone (args ! 0)) (args ! 1),
                      ConsoleLog [Str (lit ''Message sent to '' @ args ! 0)],
                      ConsoleLog [Str (lit ''Waiting 15 seconds to ensure message delivery...'')],
                      Wait 15000, ClientKill] @ fail_tail w e 1))))"
proof (cases "create_result w")
  case (Some e)
  then show ?thesis using assms(1) by (simp add: main_create_rejects)
next
  case None
  note created = this
  show ?thesis
  proof (cases "sendText_result w (cleanPhone (args ! 0)) (args ! 1)")
    case (Some e)
    then show ?thesis using assms(1) created by (simp add: main_text_rejects)
  next
    case None
    from main_image_done [OF assms(1) created None image_step_blank [OF assms(2)]]
    show ?thesis using created None by (simp split: option.splits)
  qed
qed

text \<open>
  C7, as the code has it: when the image argument is absent, empty or made of
  white space only, the run has no file look-up and no image send; it is the run of
  the same command without the image argument and it does not depend on what the
  world would answer to an image send. Its exit status is 0 exactly when the
  session is created, the text send resolves and the call of \<^verbatim>\<open>client.kill()\<close> that
  follows resolves, so a blank image never causes a failure.
\<close>

theorem blank_image_is_skipped:
  assumes "arg args 2 = None \<or> (\<exists>s. arg args 2 = Some s \<and> (\<forall>c\<in>set s. is_js_space c))"
  shows "filter is_image_io (trace (main w args)) = []
   \<and> main w args = main w (take 2 args)
   \<and> (\<forall>w'. create_result w' = create_result w \<and> sendText_result w' = sendText_result w
          \<and> kill_result w' = kill_result w \<longrightarrow> main w' args = main w args)
   \<and> (2 \<le> length args \<longrightarrow>
        exit_status (main w args) =
          Some (if create_result w = None
                   \<and> sendText_result w (cleanPhone (args ! 0)) (args ! 1) = None
                   \<and> kill_result w 0 = None
                then 0 else 1))"
proof -
  from assms have blank: "\<not> has_image (arg args 2)"
    by (auto simp: has_image_iff)
  show ?thesis
  proof (cases "length args < 2")
    case True
    then have "take 2 args = args" by simp
    with True show ?thesis
      by (simp add: main_usage trace_def exit_status_def)
  next
    case False
    then have len: "2 \<le> length args" by simp
    have blank2: "\<not> has_image (arg (take 2 args) 2)"
      by (simp add: arg_def has_image_def)
    have len2: "2 \<le> length (take 2 args)"
      using len by simp
    have "filter is_image_io (filter is_io (trace (main w args))) = []"
      using blank unfolding io_trace [OF len] image_step_io
      by (simp split: option.splits)
    then have 1: "filter is_image_io (trace (main w args)) = []"
      by (simp only: filter_image_io)
    have n: "take 2 args ! 0 = args ! 0" "take 2 args ! 1 = args ! 1"
      by simp_all
    have 2: "main w args = main w (take 2 args)"
      unfolding main_no_image [OF len blank] main_no_image [OF len2 blank2] n ..
    have 3: "main w' args = main w args"
      if "create_result w' = create_result w \<and> sendText_result w' = sendText_result w
          \<and> kill_result w' = kill_result w" for w'
      unfolding main_no_image [OF len blank] using that
      by (simp add: fail_tail_def split: option.splits)
    have 4: "exit_status (main w args) =
          Some (if create_result w = None
                   \<and> sendText_result w (cleanPhone (args ! 0)) (args ! 1) = None
                   \<and> kill_result w 0 = None
                then 0 else 1)"
      unfolding main_exit_status [OF len] using blank by (simp add: image_step_blank)
    from 3 have all3: "\<forall>w'. create_result w' = create_result w \<and> sendText_result w' = sendText_result w
          \<and> kill_result w' = kill_result w \<longrightarrow> main w' args = main w args"
      by (intro allI impI)
    from 4 have imp4: "2 \<le> length args \<longrightarrow>
        exit_status (main w args) =
          Some (if create_result w = None
                   \<and> sendText_result w (cleanPhone (args ! 0)) (args ! 1) = None
                   \<and> kill_result w 0 = None
                then 0 else 1)"
      by (rule impI)
    from 1 2 all3 imp4 show ?thesis by (intro conjI)
  qed
qed

theorem blank_image_is_skipped_witness:
  "(arg args_blank 2 = None \<or> (\<exists>s. arg args_blank 2 = Some s \<and> (\<forall>c\<in>set s. is_js_space c)))
   \<and> filter is_image_io (trace (main world_ok args_blank)) = []
   \<and> main world_ok args_blank = main world_ok args_text
   \<and> exit_status (main world_ok args_blank) = Some 0"
proof -
  have h: "arg args_blank 2 = None \<or> (\<exists>s. arg args_blank 2 = Some s \<and> (\<forall>c\<in>set s. is_js_space c))"
    by (simp add: arg_def args_blank_def is_js_space_def lit_def)
  have t: "take 2 args_blank = args_text"
    by (simp add: args_blank_def args_text_def)
  have l: "2 \<le> length args_blank"
    by (simp add: args_blank_def)
  note r = blank_image_is_skipped [OF h, of world_ok]
  note a = r [THEN conjunct1]
  note b = r [THEN conjunct2, THEN conjunct1]
  note c = r [THEN conjunct2, THEN conjunct2, THEN conjunct2, rule_format, OF l]
  from c have d: "exit_status (main world_ok args_blank) = Some 0"
    by (simp add: world_ok_def)
  from b t have e: "main world_ok args_blank = main world_ok args_text"
    by (simp only:)
  from h a e d show ?thesis by (intro conjI)
qed

text \<open>
  C7 as stated fails: the outcome does not depend on the text send alone. With the
  same blank image and the text send resolving in both worlds, the command exits
  with status 0 when \<^verbatim>\<open>client.kill()\<close> resolves and with status 1 when it rejects
  (line 58 is inside the \<^verbatim>\<open>try\<close>).
\<close>

theorem blank_image_kill_rejects_counterexample:
  "arg args_blank 2 = Some (lit ''  '')
   \<and> \<not> has_image (arg args_blank 2)
   \<and> sendText_result world_kill_rejects (cleanPhone (args_blank ! 0)) (args_blank ! 1) = None
   \<and> sendText_result world_ok (cleanPhone (args_blank ! 0)) (args_blank ! 1) = None
   \<and> filter is_send (trace (main world_ok args_blank)) =
       [SendText (lit ''15550100@c.us'') (lit ''Hello'')]
   \<and> filter is_send (trace (main world_kill_rejects args_blank)) =
       [SendText (lit ''15550100@c.us'') (lit ''Hello'')]
   \<and> exit_status (main world_ok args_blank) = Some 0
   \<and> exit_status (main world_kill_rejects args_blank) = Some 1
   \<and> trace (main world_kill_rejects args_blank) =
       [WaCreate,
        SendText (lit ''15550100@c.us'') (lit ''Hello''),
        ConsoleLog [Str (lit ''Message sent to +1-555-0100'')],
        ConsoleLog [Str (lit ''Waiting 15 seconds to ensure message delivery...'')],
        Wait 15000,
        ClientKill,
        ConsoleError [Str (lit ''Error during WhatsApp automation:''), Str (lit ''Target closed'')],
        ClientKill,
        ProcessExit 1]"
  by (simp add: run_defs world_ok_def world_kill_rejects_def args_blank_def)

text \<open>
  C9, as the code has it: with a non-blank image, the sends of the run are the text
  send with the message body and, only when the session exists, the text send
  succeeded and the image is a URL or an existing local file, after it the image
  send with the same body as its caption. The text send always comes first; the
  body goes out twice exactly in the runs that reach the image send.
\<close>

theorem body_sent_as_text_then_caption:
  assumes "has_image (arg args 2)"
  shows "filter is_send (trace (main w args)) =
     (if create_result w \<noteq> None then []
      else SendText (cleanPhone (args ! 0)) (args ! 1) #
        (if sendText_result w (cleanPhone (args ! 0)) (args ! 1) \<noteq> None then []
         else if regex_test url_pattern (args ! 2)
           then [SendImage (cleanPhone (args ! 0)) (args ! 2) (path_basename w (args ! 2)) (args ! 1)]
         else if existsSync w (path_resolve w (args ! 2))
           then [SendImage (cleanPhone (args ! 0)) (path_resolve w (args ! 2))
                   (path_basename w (path_resolve w (args ! 2))) (args ! 1)]
         else []))"
proof -
  have "filter is_send (trace (main w args)) = filter is_send (filter is_io (trace (main w args)))"
    by (simp only: filter_send_io)
  then show ?thesis
    unfolding image_io_trace [OF assms] by simp
qed

theorem body_sent_as_text_then_caption_witness:
  "has_image (arg args_photo 2)
   \<and> filter is_send (trace (main world_ok args_photo)) =
       [SendText (lit ''15550100@c.us'') (lit ''Hello''),
        SendImage (lit ''15550100@c.us'') (lit ''/srv/wa/photo.png'') (lit ''photo.png'')
          (lit ''Hello'')]"
proof -
  have p: "has_image (arg args_photo 2)"
    by (simp add: has_image_def arg_def args_photo_def trim_def is_js_space_def lit_def)
  show ?thesis
    using p body_sent_as_text_then_caption [OF p, of world_ok]
    by (simp add: world_ok_def args_photo_def cleanPhone_def is_digit_def url_pattern_def lit_def)
qed

text \<open>
  C9 as stated fails: with an image that names no file, the body is handed to the
  transport once, by the text send, and no image send follows.
\<close>

theorem body_sent_once_counterexample:
  "has_image (arg args_missing 2)
   \<and> filter is_send (trace (main world_ok args_missing)) =
       [SendText (lit ''15550100@c.us'') (lit ''Hello'')]
   \<and> exit_status (main world_ok args_missing) = Some 1"
  by (simp add: run_defs world_ok_def args_missing_def)

text \<open>
  C10: when the session exists, the text send succeeds and the step of a non-blank
  image then fails (the local file is missing, or the image send rejects), the
  command exits with status 1 although the text send was made and resolved: it is
  the second event of the run, and the exit is the last.
\<close>

theorem failure_after_text_delivered:
  assumes "has_image (arg args 2)"
    and "create_result w = None"
    and "sendText_result w (cleanPhone (args ! 0)) (args ! 1) = None"
    and "(\<not> regex_test url_pattern (args ! 2) \<and> \<not> existsSync w (path_resolve w (args ! 2)))
         \<or> (regex_test url_pattern (args ! 2) \<and>
              sendImage_result w (cleanPhone (args ! 0)) (args ! 2)
                (path_basename w (args ! 2)) (args ! 1) \<noteq> None)
         \<or> (\<not> regex_test url_pattern (args ! 2) \<and>
              sendImage_result w (cleanPhone (args ! 0)) (path_resolve w (args ! 2))
                (path_basename w (path_resolve w (args ! 2))) (args ! 1) \<noteq> None)"
  shows "exit_status (main w args) = Some 1
     \<and> take 2 (trace (main w args)) = [WaCreate, SendText (cleanPhone (args ! 0)) (args ! 1)]
     \<and> last (trace (main w args)) = ProcessExit 1"
proof -
  from has_image_arg [OF assms(1)] have len: "2 \<le> length args" and a: "arg args 2 = Some (args ! 2)"
    by simp_all
  have "fst (image_step w (cleanPhone (args ! 0)) (args ! 0) (args ! 1) (arg args 2) []) \<noteq> Normal ()"
    using assms(1,4) unfolding image_step_ok a by auto
  then obtain e ies where
    t: "image_step w (cleanPhone (args ! 0)) (args ! 0) (args ! 1) (arg args 2) [] = (Throw e, ies)"
    by (cases rule: image_step_cases [of w "cleanPhone (args ! 0)" "args ! 0" "args ! 1" "arg args 2"])
       auto
  show ?thesis
    unfolding main_image_throws [OF len assms(2,3) t]
    by (simp add: exit_status_def trace_def fail_tail_def split: option.splits)
qed

theorem failure_after_text_delivered_witness:
  "has_image (arg args_missing 2) \<and> \<not> existsSync world_ok (path_resolve world_ok (args_missing ! 2))
   \<and> exit_status (main world_ok args_missing) = Some 1
   \<and> take 2 (trace (main world_ok args_missing)) =
       [WaCreate, SendText (lit ''15550100@c.us'') (lit ''Hello'')]"
proof -
  have p: "has_image (arg args_missing 2)"
    by (simp add: has_image_def arg_def args_missing_def trim_def is_js_space_def lit_def)
  have c: "create_result world_ok = None"
    and s: "sendText_result world_ok (cleanPhone (args_missing ! 0)) (args_missing ! 1) = None"
    by (simp_all add: world_ok_def)
  have u: "\<not> regex_test url_pattern (args_missing ! 2)"
    by (simp add: args_missing_def url_pattern_def lit_def)
  have m: "\<not> existsSync world_ok (path_resolve world_ok (args_missing ! 2))"
    by (simp add: world_ok_def args_missing_def lit_def)
  have n: "cleanPhone (args_missing ! 0) = lit ''15550100@c.us''" "args_missing ! 1 = lit ''Hello''"
    by (simp_all add: args_missing_def cleanPhone_def is_digit_def lit_def)
  from failure_after_text_delivered [OF p c s] u m
  have "exit_status (main world_ok args_missing) = Some 1
     \<and> take 2 (trace (main world_ok args_missing)) =
        [WaCreate, SendText (cleanPhone (args_missing ! 0)) (args_missing ! 1)]
     \<and> last (trace (main world_ok args_missing)) = ProcessExit 1"
    by simp
  with p m show ?thesis unfolding n by simp
qed

text \<open>
  C2, as the code has it: with a non-blank image that is no URL and whose resolved
  path does not exist, the run is the one written out below. It always ends through
  \<^verbatim>\<open>process.exit(1)\<close>, never by an exception that nobody handles, and makes no
  image send. When the session exists and the text send succeeded, the file is
  looked up, once, after the text send, and the error printed names the resolved
  path. When the session cannot be created or the text send rejects, the error
  printed is that of the failed step (\<open>fail_tail\<close> prints the message of the error
  it is given) and the file is not looked up.
\<close>

theorem missing_image_exits_nonzero:
  assumes "has_image (arg args 2)"
    and "\<not> regex_test url_pattern (args ! 2)"
    and "\<not> existsSync w (path_resolve w (args ! 2))"
  shows "main w args =
       (Exit 1,
        case create_result w of
          Some e \<Rightarrow>
            [WaCreate,
             ConsoleError [Str (lit ''Error initializing wa-automate:''), Err e],
             ProcessExit 1]
        | None \<Rightarrow>
            (case sendText_result w (cleanPhone (args ! 0)) (args ! 1) of
               Some e \<Rightarrow>
                 [WaCreate, SendText (cleanPhone (args ! 0)) (args ! 1)] @ fail_tail w e 0
             | None \<Rightarrow>
                 [WaCreate, SendText (cleanPhone (args ! 0)) (args ! 1),
                  ConsoleLog [Str (lit ''Message sent to '' @ args ! 0)],
                  ExistsSync (path_resolve w (args ! 2))] @
                 fail_tail w (JsError (lit ''Image file not found: '' @ path_resolve w (args ! 2))) 0))
     \<and> exit_status (main w args) = Some 1
     \<and> filter is_send (trace (main w args)) =
         (if create_result w = None then [SendText (cleanPhone (args ! 0)) (args ! 1)] else [])
     \<and> filter is_image_io (trace (main w args)) =
         (if create_result w = None \<and> sendText_result w (cleanPhone (args ! 0)) (args ! 1) = None
          then [ExistsSync (path_resolve w (args ! 2))] else [])
     \<and> (create_result w = None \<and> sendText_result w (cleanPhone (args ! 0)) (args ! 1) = None \<longrightarrow>
          ConsoleError [Str (lit ''Error during WhatsApp automation:''),
                        Str (lit ''Image file not found: '' @ path_resolve w (args ! 2))]
            \<in> set (trace (main w args)))"
proof -
  from has_image_arg [OF assms(1)] have len: "2 \<le> length args" and a: "arg args 2 = Some (args ! 2)"
    by simp_all
  have step: "image_step w (cleanPhone (args ! 0)) (args ! 0) (args ! 1) (arg args 2) [] =
     (Throw (JsError (lit ''Image file not found: '' @ path_resolve w (args ! 2))),
      [ExistsSync (path_resolve w (args ! 2))])"
    using assms unfolding a by (simp add: image_step_missing)
  have 0: "main w args =
       (Exit 1,
        case create_result w of
          Some e \<Rightarrow>
            [WaCreate,
             ConsoleError [Str (lit ''Error initializing wa-automate:''), Err e],
             ProcessExit 1]
        | None \<Rightarrow>
            (case sendText_result w (cleanPhone (args ! 0)) (args ! 1) of
               Some e \<Rightarrow>
                 [WaCreate, SendText (cleanPhone (args ! 0)) (args ! 1)] @ fail_tail w e 0
             | None \<Rightarrow>
                 [WaCreate, SendText (cleanPhone (args ! 0)) (args ! 1),
                  ConsoleLog [Str (lit ''Message sent to '' @ args ! 0)],
                  ExistsSync (path_resolve w (args ! 2))] @
                 fail_tail w (JsError (lit ''Image file not found: '' @ path_resolve w (args ! 2))) 0))"
  proof (cases "create_result w")
    case (Some e)
    then show ?thesis using len by (simp add: main_create_rejects)
  next
    case None
    note created = this
    show ?thesis
    proof (cases "sendText_result w (cleanPhone (args ! 0)) (args ! 1)")
      case (Some e)
      then show ?thesis using len created by (simp add: main_text_rejects)
    next
      case None
      from main_image_throws [OF len created None step] show ?thesis
        using created None by simp
    qed
  qed
  have 1: "exit_status (main w args) = Some 1"
    unfolding main_exit_status [OF len] step by simp
  have "filter is_send (trace (main w args)) = filter is_send (filter is_io (trace (main w args)))"
    by (simp only: filter_send_io)
  then have 2: "filter is_send (trace (main w args)) =
         (if create_result w = None then [SendText (cleanPhone (args ! 0)) (args ! 1)] else [])"
    unfolding image_io_trace [OF assms(1)] using assms(2,3) by simp
  have "filter is_image_io (trace (main w args)) = filter is_image_io (filter is_io (trace (main w args)))"
    by (simp only: filter_image_io)
  then have 3: "filter is_image_io (trace (main w args)) =
         (if create_result w = None \<and> sendText_result w (cleanPhone (args ! 0)) (args ! 1) = None
          then [ExistsSync (path_resolve w (args ! 2))] else [])"
    unfolding image_io_trace [OF assms(1)] using assms(2,3) by simp
  have 4: "ConsoleError [Str (lit ''Error during WhatsApp automation:''),
                        Str (lit ''Image file not found: '' @ path_resolve w (args ! 2))]
            \<in> set (trace (main w args))"
    if "create_result w = None \<and> sendText_result w (cleanPhone (args ! 0)) (args ! 1) = None"
    using that main_image_throws [OF len _ _ step]
    by (simp add: trace_def fail_tail_def)
  from 4 have imp: "create_result w = None \<and> sendText_result w (cleanPhone (args ! 0)) (args ! 1) = None \<longrightarrow>
          ConsoleError [Str (lit ''Error during WhatsApp automation:''),
                        Str (lit ''Image file not found: '' @ path_resolve w (args ! 2))]
            \<in> set (trace (main w args))"
    by (rule impI)
  from 0 1 2 3 imp show ?thesis by (intro conjI)
qed

theorem missing_image_exits_nonzero_witness:
  "has_image (arg args_missing 2) \<and> \<not> regex_test url_pattern (args_missing ! 2)
   \<and> \<not> existsSync world_ok (path_resolve world_ok (args_missing ! 2))
   \<and> exit_status (main world_ok args_missing) = Some 1
   \<and> ConsoleError [Str (lit ''Error during WhatsApp automation:''),
                   Str (lit ''Image file not found: /srv/wa/missing.png'')]
        \<in> set (trace (main world_ok args_missing))
   \<and> filter is_image_io (trace (main world_text_rejects args_missing)) = []
   \<and> ConsoleError [Str (lit ''Error during WhatsApp automation:''), Str (lit ''Evaluation failed'')]
        \<in> set (trace (main world_text_rejects args_missing))"
proof -
  have p: "has_image (arg args_missing 2)"
    by (simp add: has_image_def arg_def args_missing_def trim_def is_js_space_def lit_def)
  have u: "\<not> regex_test url_pattern (args_missing ! 2)"
    by (simp add: args_missing_def url_pattern_def lit_def)
  have m: "\<not> existsSync world_ok (path_resolve world_ok (args_missing ! 2))"
    by (simp add: world_ok_def args_missing_def lit_def)
  have m': "\<not> existsSync world_text_rejects (path_resolve world_text_rejects (args_missing ! 2))"
    by (simp add: world_ok_def world_text_rejects_def args_missing_def lit_def)
  have r: "lit ''Image file not found: '' @ path_resolve world_ok (args_missing ! 2)
           = lit ''Image file not found: /srv/wa/missing.png''"
    by (simp add: world_ok_def args_missing_def lit_def)
  note t = missing_image_exits_nonzero [OF p u m]
  note t' = missing_image_exits_nonzero [OF p u m']
  note e = t [THEN conjunct2, THEN conjunct1]
  have "ConsoleError [Str (lit ''Error during WhatsApp automation:''),
                   Str (lit ''Image file not found: '' @ path_resolve world_ok (args_missing ! 2))]
        \<in> set (trace (main world_ok args_missing))"
    using t [THEN conjunct2, THEN conjunct2, THEN conjunct2, THEN conjunct2] by (simp add: world_ok_def)
  then have c: "ConsoleError [Str (lit ''Error during WhatsApp automation:''),
                   Str (lit ''Image file not found: /srv/wa/missing.png'')]
        \<in> set (trace (main world_ok args_missing))"
    unfolding r .
  have f: "filter is_image_io (trace (main world_text_rejects args_missing)) = []"
    using t' [THEN conjunct2, THEN conjunct2, THEN conjunct2, THEN conjunct1]
    by (simp add: world_ok_def world_text_rejects_def)
  have g: "ConsoleError [Str (lit ''Error during WhatsApp automation:''), Str (lit ''Evaluation failed'')]
        \<in> set (trace (main world_text_rejects args_missing))"
    unfolding t' [THEN conjunct1]
    by (simp add: trace_def fail_tail_def world_ok_def world_text_rejects_def)
  from p u m e c f g show ?thesis by (intro conjI)
qed

text \<open>
  C2 as stated fails: when the text send rejects, the command prints the error of
  the text send and exits; the file is never looked up and no output names it.
\<close>

theorem missing_image_not_reported_counterexample:
  "has_image (arg args_missing 2) \<and> \<not> regex_test url_pattern (args_missing ! 2)
   \<and> \<not> existsSync world_text_rejects (path_resolve world_text_rejects (args_missing ! 2))
   \<and> main world_text_rejects args_missing =
       (Exit 1,
        [WaCreate,
         SendText (lit ''15550100@c.us'') (lit ''Hello''),
         ConsoleError [Str (lit ''Error during WhatsApp automation:''), Str (lit ''Evaluation failed'')],
         ClientKill,
         ProcessExit 1])"
  by (simp add: run_defs world_ok_def world_text_rejects_def args_missing_def)

text \<open>
  C1, as the code has it: with at least two arguments the command always ends through
  \<^verbatim>\<open>process.exit\<close>, with status 0 or 1. The status is 0 exactly
  when the session is created, the text send resolves, the step of a non-blank image
  succeeds (a URL, or an existing local file, and the image send resolves) and the
  call of \<^verbatim>\<open>client.kill()\<close> that follows the sends resolves;
  otherwise it is 1.
\<close>

theorem exit_status_of_run:
  assumes "2 \<le> length args"
  shows "exit_status (main w args) =
     Some (if create_result w = None
              \<and> sendText_result w (cleanPhone (args ! 0)) (args ! 1) = None
              \<and> (has_image (arg args 2) \<longrightarrow>
                   (regex_test url_pattern (args ! 2) \<and>
                      sendImage_result w (cleanPhone (args ! 0)) (args ! 2)
                        (path_basename w (args ! 2)) (args ! 1) = None) \<or>
                   (\<not> regex_test url_pattern (args ! 2) \<and>
                      existsSync w (path_resolve w (args ! 2)) \<and>
                      sendImage_result w (cleanPhone (args ! 0)) (path_resolve w (args ! 2))
                        (path_basename w (path_resolve w (args ! 2))) (args ! 1) = None))
              \<and> kill_result w 0 = None
           then 0 else 1)"
proof (cases "has_image (arg args 2)")
  case False
  then show ?thesis
    unfolding main_exit_status [OF assms] by (simp add: image_step_blank)
next
  case True
  from has_image_arg [OF True] have a: "the (arg args 2) = args ! 2"
    by simp
  show ?thesis
    unfolding main_exit_status [OF assms] image_step_ok a by (rule refl)
qed

theorem exit_status_of_run_witness:
  "2 \<le> length args_photo \<and> exit_status (main world_ok args_photo) = Some 0
   \<and> 2 \<le> length args_missing \<and> exit_status (main world_ok args_missing) = Some 1"
proof -
  have l: "2 \<le> length args_photo" "2 \<le> length args_missing"
    by (simp_all add: args_photo_def args_missing_def)
  have a: "exit_status (main world_ok args_photo) = Some 0"
    unfolding exit_status_of_run [OF l(1)]
    by (simp add: world_ok_def args_photo_def has_image_def arg_def trim_def is_js_space_def
        url_pattern_def lit_def)
  have b: "exit_status (main world_ok args_missing) = Some 1"
    unfolding exit_status_of_run [OF l(2)]
    by (simp add: world_ok_def args_missing_def has_image_def arg_def trim_def is_js_space_def
        url_pattern_def lit_def)
  from l a b show ?thesis by (intro conjI)
qed

text \<open>
  C1 as stated fails: line 58 awaits \<^verbatim>\<open>client.kill()\<close> inside
  the \<^verbatim>\<open>try\<close>. When that call rejects after both sends have
  succeeded, the \<^verbatim>\<open>catch\<close> runs and the command exits with
  status 1.
\<close>

theorem exit_status_kill_rejects_counterexample:
  "2 \<le> length args_photo
   \<and> create_result world_kill_rejects = None
   \<and> existsSync world_kill_rejects (path_resolve world_kill_rejects (args_photo ! 2))
   \<and> list_all (send_succeeded world_kill_rejects) (trace (main world_kill_rejects args_photo))
   \<and> filter is_send (trace (main world_kill_rejects args_photo)) =
       [SendText (lit ''15550100@c.us'') (lit ''Hello''),
        SendImage (lit ''15550100@c.us'') (lit ''/srv/wa/photo.png'') (lit ''photo.png'')
          (lit ''Hello'')]
   \<and> exit_status (main world_kill_rejects args_photo) = Some 1
   \<and> trace (main world_kill_rejects args_photo) =
       [WaCreate,
        SendText (lit ''15550100@c.us'') (lit ''Hello''),
        ConsoleLog [Str (lit ''Message sent to +1-555-0100'')],
        ExistsSync (lit ''/srv/wa/photo.png''),
        SendImage (lit ''15550100@c.us'') (lit ''/srv/wa/photo.png'') (lit ''photo.png'')
          (lit ''Hello''),
        ConsoleLog [Str (lit ''Image sent to +1-555-0100'')],
        ConsoleLog [Str (lit ''Waiting 15 seconds to ensure message delivery...'')],
        Wait 15000,
        ClientKill,
        ConsoleError [Str (lit ''Error during WhatsApp automation:''), Str (lit ''Target closed'')],
        ClientKill,
        ProcessExit 1]"
  by (simp add: run_defs world_ok_def world_kill_rejects_def args_photo_def send_succeeded_def)

section \<open>The scheduling engine: termination, final queue and order\<close>

lemma earliest_None: "earliest t js rows = None \<longleftrightarrow> rows = []"
  by (induction rows) (auto split: option.splits)

lemma earliest_mem: "earliest t js rows = Some k \<Longrightarrow> k \<in> set rows"
  by (induction rows arbitrary: k) (auto split: option.splits if_splits)

lemma settle_not_pending: "status (settle ev i j) \<noteq> PENDING"
  by (simp add: settle_def Let_def)

lemma settle_scheduled_at: "scheduled_at (settle ev i j) = scheduled_at j"
  by (simp add: settle_def Let_def)

lemma length_jobs_dispatch [simp]: "length (jobs (dispatch_job ev i st)) = length (jobs st)"
  by (simp add: dispatch_job_def Let_def)

lemma jobs_dispatch_nth:
  "k < length (jobs st) \<Longrightarrow>
   jobs (dispatch_job ev i st) ! k = (if k = i then settle ev i (jobs st ! i) else jobs st ! k)"
  by (simp add: dispatch_job_def Let_def nth_list_update)

lemma dispatched_dispatch [simp]: "dispatched (dispatch_job ev i st) = dispatched st @ [i]"
  by (simp add: dispatch_job_def Let_def)

lemma mem_pending_rows:
  "i \<in> set (pending_rows st) \<longleftrightarrow> i < length (jobs st) \<and> status (jobs st ! i) = PENDING"
  by (auto simp: pending_rows_def)

lemma mem_due_rows:
  "i \<in> set (due_rows st) \<longleftrightarrow> i < length (jobs st) \<and> is_due (now st) (jobs st ! i)"
  by (auto simp: due_rows_def)

lemma due_pending: "i \<in> set (due_rows st) \<Longrightarrow> i \<in> set (pending_rows st)"
  by (simp add: mem_due_rows mem_pending_rows is_due_def)

lemma pending_rows_dispatch:
  assumes "i \<in> set (pending_rows st)"
  shows "pending_rows (dispatch_job ev i st) = filter (\<lambda>k. k \<noteq> i) (pending_rows st)"
proof -
  have "filter (\<lambda>k. status (jobs (dispatch_job ev i st) ! k) = PENDING) [0..<length (jobs st)]
      = filter (\<lambda>k. k \<noteq> i \<and> status (jobs st ! k) = PENDING) [0..<length (jobs st)]"
    by (rule filter_cong) (auto simp: jobs_dispatch_nth settle_not_pending)
  then show ?thesis
    by (simp add: pending_rows_def conj_commute)
qed

lemma length_pending_dispatch:
  assumes "i \<in> set (pending_rows st)"
  shows "length (pending_rows (dispatch_job ev i st)) < length (pending_rows st)"
  unfolding pending_rows_dispatch [OF assms]
  using assms by (simp add: length_filter_less)

lemma wake_makes_due:
  assumes "earliest (now st) (jobs st) (due_rows st) = None"
    and "earliest (now st) (jobs st) (pending_rows st) = Some k"
  shows "k \<in> set (due_rows (st\<lparr>now := wake_at (now st) (scheduled_at (jobs st ! k))\<rparr>))"
proof -
  from earliest_mem [OF assms(2)] have k: "k < length (jobs st)" "status (jobs st ! k) = PENDING"
    by (simp_all add: mem_pending_rows)
  then show ?thesis
    by (simp add: mem_due_rows is_due_def wake_at_def split: option.splits)
qed

termination run_scheduled_from
proof (relation "measure (\<lambda>(ev, st). 2 * length (pending_rows st) + (if due_rows st = [] then 1 else 0))",
    goal_cases)
  case 1
  show ?case by simp
next
  case (2 ev st k)
  from wake_makes_due [OF 2] have "due_rows (st\<lparr>now := wake_at (now st) (scheduled_at (jobs st ! k))\<rparr>) \<noteq> []"
    by auto
  moreover have "pending_rows (st\<lparr>now := wake_at (now st) (scheduled_at (jobs st ! k))\<rparr>) = pending_rows st"
    by (simp add: pending_rows_def)
  moreover from 2(1) have "due_rows st = []"
    by (simp add: earliest_None)
  ultimately show ?case by simp
next
  case (3 ev st i)
  from earliest_mem [OF 3] have "i \<in> set (pending_rows st)"
    by (rule due_pending)
  from length_pending_dispatch [OF this, of ev] show ?case
    using earliest_mem [OF 3] by auto
qed

declare run_scheduled_from.simps [simp del]

lemma run_step_dispatch:
  "earliest (now st) (jobs st) (due_rows st) = Some k \<Longrightarrow>
   run_scheduled_from ev st = run_scheduled_from ev (dispatch_job ev k st)"
  by (subst run_scheduled_from.simps) simp

lemma run_step_wake:
  "earliest (now st) (jobs st) (due_rows st) = None \<Longrightarrow> earliest (now st) (jobs st) (pending_rows st) = Some k \<Longrightarrow>
   run_scheduled_from ev st =
     run_scheduled_from ev (st\<lparr>now := wake_at (now st) (scheduled_at (jobs st ! k))\<rparr>)"
  by (subst run_scheduled_from.simps) simp

lemma run_step_done:
  "earliest (now st) (jobs st) (due_rows st) = None \<Longrightarrow> earliest (now st) (jobs st) (pending_rows st) = None \<Longrightarrow>
   run_scheduled_from ev st = st"
  by (subst run_scheduled_from.simps) simp

lemma settled_nth:
  "i < length js \<Longrightarrow>
   settled ev js ! i = (if status (js ! i) = PENDING then settle ev i (js ! i) else js ! i)"
  by (simp add: settled_def)

lemma length_settled [simp]: "length (settled ev js) = length js"
  by (simp add: settled_def)

lemma settled_no_pending:
  "pending_rows st = [] \<Longrightarrow> settled ev (jobs st) = jobs st"
  by (rule nth_equalityI) (auto simp: settled_nth pending_rows_def filter_empty_conv)

lemma settled_dispatch:
  assumes "k \<in> set (pending_rows st)"
  shows "settled ev (jobs (dispatch_job ev k st)) = settled ev (jobs st)"
proof (rule nth_equalityI)
  show "length (settled ev (jobs (dispatch_job ev k st))) = length (settled ev (jobs st))"
    by simp
next
  fix i assume "i < length (settled ev (jobs (dispatch_job ev k st)))"
  then have i: "i < length (jobs st)" by simp
  from assms have k: "k < length (jobs st)" "status (jobs st ! k) = PENDING"
    by (simp_all add: mem_pending_rows)
  show "settled ev (jobs (dispatch_job ev k st)) ! i = settled ev (jobs st) ! i"
    using i k by (simp add: settled_nth jobs_dispatch_nth settle_not_pending)
qed

lemma jobs_run_scheduled_from: "jobs (run_scheduled_from ev st) = settled ev (jobs st)"
proof (induction ev st rule: run_scheduled_from.induct)
  case (1 ev st)
  show ?case
  proof (cases "earliest (now st) (jobs st) (due_rows st)")
    case (Some k)
    from earliest_mem [OF Some] have "k \<in> set (pending_rows st)"
      by (rule due_pending)
    then show ?thesis
      using "1.IH"(2) [OF Some] by (simp add: run_step_dispatch [OF Some] settled_dispatch)
  next
    case None
    note nodue = this
    show ?thesis
    proof (cases "earliest (now st) (jobs st) (pending_rows st)")
      case None
      then show ?thesis
        using nodue by (simp add: run_step_done earliest_None settled_no_pending)
    next
      case (Some k)
      from "1.IH"(1) [OF nodue Some] show ?thesis
        by (simp add: run_step_wake [OF nodue Some])
    qed
  qed
qed

lemma immediate_from_jobs:
  "distinct rows \<Longrightarrow> \<forall>i\<in>set rows. i < length (jobs st) \<Longrightarrow>
   length (jobs (immediate_from ev rows st)) = length (jobs st) \<and>
   (\<forall>i<length (jobs st). jobs (immediate_from ev rows st) ! i =
      (if i \<in> set rows \<and> status (jobs st ! i) = PENDING then settle ev i (jobs st ! i)
       else jobs st ! i))"
proof (induction rows arbitrary: st)
  case Nil
  show ?case by simp
next
  case (Cons r rows)
  let ?st = "if status (jobs st ! r) = PENDING then dispatch_job ev r st else st"
  have len: "length (jobs ?st) = length (jobs st)" by simp
  have d: "distinct rows" and r: "r \<notin> set rows" "r < length (jobs st)"
    using Cons.prems by simp_all
  have b: "\<forall>i\<in>set rows. i < length (jobs ?st)"
    using Cons.prems(2) by simp
  note ih = Cons.IH [OF d b]
  show ?case
  proof (intro conjI allI impI)
    show "length (jobs (immediate_from ev (r # rows) st)) = length (jobs st)"
      using ih len by simp
  next
    fix i assume i: "i < length (jobs st)"
    then have "jobs (immediate_from ev rows ?st) ! i =
      (if i \<in> set rows \<and> status (jobs ?st ! i) = PENDING then settle ev i (jobs ?st ! i)
       else jobs ?st ! i)"
      using ih len by simp
    then show "jobs (immediate_from ev (r # rows) st) ! i =
      (if i \<in> set (r # rows) \<and> status (jobs st ! i) = PENDING then settle ev i (jobs st ! i)
       else jobs st ! i)"
      using i r by (auto simp: jobs_dispatch_nth settle_not_pending)
  qed
qed

lemma jobs_run_immediate: "jobs (run_immediate ev js t0) = settled ev js"
proof (rule nth_equalityI)
  have "distinct [0..<length js]" "\<forall>i\<in>set [0..<length js]. i < length (jobs (start js t0))"
    by (simp_all add: start_def)
  note r = immediate_from_jobs [OF this, of ev]
  from r show "length (jobs (run_immediate ev js t0)) = length (settled ev js)"
    by (simp add: run_immediate_def start_def)
  fix i assume "i < length (jobs (run_immediate ev js t0))"
  then have "i < length js"
    using r by (simp add: run_immediate_def start_def)
  then show "jobs (run_immediate ev js t0) ! i = settled ev js ! i"
    using r by (simp add: run_immediate_def start_def settled_nth)
qed

lemma jobs_run_scheduled: "jobs (run_scheduled ev js t0) = settled ev js"
  by (simp add: run_scheduled_def jobs_run_scheduled_from start_def)

lemma before_sorted:
  "sorted_wrt (<) xs \<Longrightarrow> i \<in> set xs \<Longrightarrow> j \<in> set xs \<Longrightarrow> i < j \<Longrightarrow> before i j (xs :: nat list)"
  by (induction xs) auto

lemma before_append:
  "a \<notin> set xs \<Longrightarrow> b \<notin> set xs \<Longrightarrow> before a b (xs @ ys) = before a b ys"
  by (induction xs) auto

lemma immediate_from_dispatched:
  "distinct rows \<Longrightarrow> \<forall>i\<in>set rows. i < length (jobs st) \<Longrightarrow>
   dispatched (immediate_from ev rows st) =
     dispatched st @ filter (\<lambda>i. status (jobs st ! i) = PENDING) rows"
proof (induction rows arbitrary: st)
  case Nil
  show ?case by simp
next
  case (Cons r rows)
  let ?st = "if status (jobs st ! r) = PENDING then dispatch_job ev r st else st"
  have d: "distinct rows" and r: "r \<notin> set rows" "r < length (jobs st)"
    using Cons.prems by simp_all
  have b: "\<forall>i\<in>set rows. i < length (jobs ?st)"
    using Cons.prems(2) by simp
  have same: "filter (\<lambda>i. status (jobs ?st ! i) = PENDING) rows
            = filter (\<lambda>i. status (jobs st ! i) = PENDING) rows"
    using r Cons.prems(2) by (intro filter_cong) (auto simp: jobs_dispatch_nth)
  from Cons.IH [OF d b] show ?case
    unfolding same by simp
qed

lemma dispatched_run_immediate:
  "dispatched (run_immediate ev js t0) = filter (\<lambda>i. status (js ! i) = PENDING) [0..<length js]"
proof -
  have "distinct [0..<length js]" "\<forall>i\<in>set [0..<length js]. i < length (jobs (start js t0))"
    by (simp_all add: start_def)
  from immediate_from_dispatched [OF this, of ev] show ?thesis
    by (simp add: run_immediate_def start_def)
qed

lemma earliest_first:
  "sorted_wrt (<) rows \<Longrightarrow> earliest t js rows = Some k \<Longrightarrow> m \<in> set rows \<Longrightarrow> m < k \<Longrightarrow>
   due_time t (js ! k) < due_time t (js ! m)"
proof (induction rows arbitrary: k)
  case Nil
  then show ?case by simp
next
  case (Cons r rows)
  show ?case
  proof (cases "earliest t js rows")
    case None
    with Cons.prems show ?thesis by (auto simp: earliest_None)
  next
    case (Some k')
    from earliest_mem [OF Some] Cons.prems(1) have "r < k'" by auto
    show ?thesis
    proof (cases "due_time t (js ! k') < due_time t (js ! r)")
      case True
      with Some Cons.prems(2) have k: "k = k'" by simp
      show ?thesis
      proof (cases "m = r")
        case True
        with \<open>due_time t (js ! k') < due_time t (js ! r)\<close> k show ?thesis by simp
      next
        case False
        with Cons.prems(3) have "m \<in> set rows" by simp
        from Cons.IH [OF _ Some this] Cons.prems(1,4) k show ?thesis by simp
      qed
    next
      case False
      with Some Cons.prems(2) have "k = r" by simp
      with Cons.prems(1,3,4) show ?thesis by auto
    qed
  qed
qed

lemma due_rows_sorted: "sorted_wrt (<) (due_rows st)"
  by (simp add: due_rows_def sorted_wrt_filter)

lemma scheduled_at_dispatch:
  "m < length (jobs st) \<Longrightarrow>
   scheduled_at (jobs (dispatch_job ev k st) ! m) = scheduled_at (jobs st ! m)"
  by (simp add: jobs_dispatch_nth settle_scheduled_at)

lemma dispatched_run_scheduled_from:
  "\<exists>new. dispatched (run_scheduled_from ev st) = dispatched st @ new
     \<and> set new = set (pending_rows st) \<and> distinct new
     \<and> (\<forall>i j. i < j \<and> i \<in> set (pending_rows st) \<and> j \<in> set (pending_rows st)
            \<and> scheduled_at (jobs st ! i) = scheduled_at (jobs st ! j) \<longrightarrow> before i j new)"
proof (induction ev st rule: run_scheduled_from.induct)
  case (1 ev st)
  show ?case
  proof (cases "earliest (now st) (jobs st) (due_rows st)")
    case (Some k)
    let ?st = "dispatch_job ev k st"
    from earliest_mem [OF Some] have kdue: "k \<in> set (due_rows st)" .
    then have kp: "k \<in> set (pending_rows st)" by (rule due_pending)
    from "1.IH"(2) [OF Some] obtain new where
      n1: "dispatched (run_scheduled_from ev ?st) = dispatched ?st @ new"
      and n2: "set new = set (pending_rows ?st)" and n3: "distinct new"
      and n4: "\<forall>i j. i < j \<and> i \<in> set (pending_rows ?st) \<and> j \<in> set (pending_rows ?st)
            \<and> scheduled_at (jobs ?st ! i) = scheduled_at (jobs ?st ! j) \<longrightarrow> before i j new"
      by blast
    have p: "set (pending_rows ?st) = set (pending_rows st) - {k}"
      unfolding pending_rows_dispatch [OF kp] by auto
    have a: "dispatched (run_scheduled_from ev st) = dispatched st @ (k # new)"
      using n1 by (simp add: run_step_dispatch [OF Some])
    have b: "set (k # new) = set (pending_rows st)"
      using n2 p kp by auto
    have c: "distinct (k # new)"
      using n2 n3 p by simp
    have d: "before i j (k # new)"
      if "i < j \<and> i \<in> set (pending_rows st) \<and> j \<in> set (pending_rows st)
            \<and> scheduled_at (jobs st ! i) = scheduled_at (jobs st ! j)" for i j
    proof -
      from that have ij: "i < j" and ip: "i \<in> set (pending_rows st)" and jp: "j \<in> set (pending_rows st)"
        and eq: "scheduled_at (jobs st ! i) = scheduled_at (jobs st ! j)"
        by simp_all
      have "k \<noteq> j"
      proof
        assume "k = j"
        with kdue have "is_due (now st) (jobs st ! j)" by (simp add: mem_due_rows)
        with eq ip have "i \<in> set (due_rows st)"
          by (simp add: mem_due_rows mem_pending_rows is_due_def)
        from earliest_first [OF due_rows_sorted Some this] ij \<open>k = j\<close> eq
        show False by (simp add: due_time_def)
      qed
      show ?thesis
      proof (cases "k = i")
        case True
        with jp ij n2 p show ?thesis by simp
      next
        case False
        from ip jp have "i < length (jobs st)" "j < length (jobs st)"
          by (simp_all add: mem_pending_rows)
        with eq have "scheduled_at (jobs ?st ! i) = scheduled_at (jobs ?st ! j)"
          by (simp add: scheduled_at_dispatch)
        with n4 ij ip jp p False \<open>k \<noteq> j\<close> have "before i j new" by simp
        with False \<open>k \<noteq> j\<close> show ?thesis by simp
      qed
    qed
    from a b c d show ?thesis by blast
  next
    case None
    note nodue = this
    show ?thesis
    proof (cases "earliest (now st) (jobs st) (pending_rows st)")
      case None
      then show ?thesis
        using nodue by (simp add: run_step_done earliest_None)
    next
      case (Some k)
      from "1.IH"(1) [OF nodue Some] show ?thesis
        by (simp add: run_step_wake [OF nodue Some] pending_rows_def)
    qed
  qed
qed

lemma settle_failed:
  "\<not> success (gateway ev i (j\<lparr>status := DUE\<rparr>)) \<Longrightarrow>
   status (settle ev i j) = FAILED \<and> last_error (settle ev i j) = error (gateway ev i (j\<lparr>status := DUE\<rparr>))"
  by (simp add: settle_def Let_def)

lemma settle_status: "status (settle ev i j) = SENT \<or> status (settle ev i j) = FAILED"
  by (simp add: settle_def Let_def)

lemma settle_attempts: "attempts (settle ev i j) = attempts j + 1"
  by (simp add: settle_def Let_def)

lemma set_dispatched_run_scheduled:
  "set (dispatched (run_scheduled ev js t0)) = {i. i < length js \<and> status (js ! i) = PENDING}"
proof -
  from dispatched_run_scheduled_from [of ev "start js t0"] obtain new where
    "dispatched (run_scheduled_from ev (start js t0)) = dispatched (start js t0) @ new"
    "set new = set (pending_rows (start js t0))"
    by blast
  then show ?thesis
    by (auto simp: run_scheduled_def start_def pending_rows_def)
qed

text \<open>
  The scenario of section 8: started after the set time, the engine dispatches the
  first row and then the blank one; started before it, the blank row is the only
  one due and goes first. Immediate mode follows the source.
\<close>

lemma blank_time_scenario:
  "dispatched (run_scheduled sample_env two_rows 1000) = [0, 1]
   \<and> dispatched (run_scheduled sample_env two_rows 0) = [1, 0]
   \<and> dispatched (run_immediate sample_env two_rows 0) = [0, 1]"
  by code_simp

text \<open>
  C4: for two rows that are both \<open>PENDING\<close> when the run starts and whose
  \<open>scheduled_at\<close> values are equal (or both blank), the row that comes
  first in the source is dispatched first, in immediate mode and in scheduled mode,
  whatever the gateway answers, the delays and the starting time are.
\<close>

theorem ties_follow_source_order:
  assumes "i < j" and "j < length js"
    and "status (js ! i) = PENDING" and "status (js ! j) = PENDING"
    and "scheduled_at (js ! i) = scheduled_at (js ! j)"
  shows "before i j (dispatched (run_immediate ev js t0))
     \<and> before i j (dispatched (run_scheduled ev js t0))"
proof
  have "i \<in> set (filter (\<lambda>i. status (js ! i) = PENDING) [0..<length js])"
    "j \<in> set (filter (\<lambda>i. status (js ! i) = PENDING) [0..<length js])"
    using assms by simp_all
  moreover have "sorted_wrt (<) (filter (\<lambda>i. status (js ! i) = PENDING) [0..<length js])"
    by (simp add: sorted_wrt_filter)
  ultimately show "before i j (dispatched (run_immediate ev js t0))"
    unfolding dispatched_run_immediate using \<open>i < j\<close> by (intro before_sorted)
next
  from dispatched_run_scheduled_from [of ev "start js t0"] obtain new where
    n: "dispatched (run_scheduled_from ev (start js t0)) = dispatched (start js t0) @ new"
    and o: "\<forall>i j. i < j \<and> i \<in> set (pending_rows (start js t0)) \<and> j \<in> set (pending_rows (start js t0))
            \<and> scheduled_at (jobs (start js t0) ! i) = scheduled_at (jobs (start js t0) ! j)
          \<longrightarrow> before i j new"
    by blast
  have "i \<in> set (pending_rows (start js t0))" "j \<in> set (pending_rows (start js t0))"
    using assms by (simp_all add: mem_pending_rows start_def)
  with o assms(1,5) have "before i j new"
    by (simp add: start_def)
  with n show "before i j (dispatched (run_scheduled ev js t0))"
    by (simp add: run_scheduled_def start_def)
qed

theorem ties_follow_source_order_witness:
  "(0::nat) < 2 \<and> 2 < length sample_jobs
   \<and> scheduled_at (sample_jobs ! 0) = scheduled_at (sample_jobs ! 2)
   \<and> before 0 2 (dispatched (run_immediate sample_env sample_jobs 0))
   \<and> before 0 2 (dispatched (run_scheduled sample_env sample_jobs 0))
   \<and> dispatched (run_scheduled sample_env sample_jobs 0) = [1, 0, 2]"
proof -
  have "dispatched (run_scheduled sample_env sample_jobs 0) = [1, 0, 2]"
    by code_simp
  with ties_follow_source_order [of 0 2 sample_jobs sample_env 0] show ?thesis
    by (simp add: sample_jobs_def)
qed

text \<open>
  C5: in a queue as the parser leaves it (every row \<open>PENDING\<close> or
  \<open>SKIPPED\<close>), when the dispatch of row \<open>k\<close> fails, the run of
  either mode leaves row \<open>k\<close> \<open>FAILED\<close> with the error of the
  gateway recorded, every row ends \<open>SENT\<close>, \<open>FAILED\<close> or
  \<open>SKIPPED\<close>, and every row that was \<open>PENDING\<close>, those after
  \<open>k\<close> included, is dispatched, once.
\<close>

theorem failed_dispatch_does_not_halt:
  assumes "k < length js" and "status (js ! k) = PENDING"
    and "\<not> success (gateway ev k ((js ! k)\<lparr>status := DUE\<rparr>))"
    and "\<forall>m<length js. status (js ! m) = PENDING \<or> status (js ! m) = SKIPPED"
    and "r = run_immediate ev js t0 \<or> r = run_scheduled ev js t0"
  shows "length (jobs r) = length js
     \<and> status (jobs r ! k) = FAILED
     \<and> last_error (jobs r ! k) = error (gateway ev k ((js ! k)\<lparr>status := DUE\<rparr>))
     \<and> (\<forall>m<length js. status (jobs r ! m) = SENT \<or> status (jobs r ! m) = FAILED
            \<or> status (jobs r ! m) = SKIPPED)
     \<and> (\<forall>m<length js. status (js ! m) = PENDING \<longrightarrow>
            m \<in> set (dispatched r) \<and> attempts (jobs r ! m) = attempts (js ! m) + 1)"
proof -
  from assms(5) have j: "jobs r = settled ev js"
    by (auto simp: jobs_run_immediate jobs_run_scheduled)
  from assms(5) have d: "set (dispatched r) = {i. i < length js \<and> status (js ! i) = PENDING}"
    by (auto simp: dispatched_run_immediate set_dispatched_run_scheduled)
  have 1: "length (jobs r) = length js"
    by (simp add: j)
  have 2: "status (jobs r ! k) = FAILED"
    and 3: "last_error (jobs r ! k) = error (gateway ev k ((js ! k)\<lparr>status := DUE\<rparr>))"
    using assms(1,2) settle_failed [OF assms(3)] by (simp_all add: j settled_nth)
  have 4: "\<forall>m<length js. status (jobs r ! m) = SENT \<or> status (jobs r ! m) = FAILED
            \<or> status (jobs r ! m) = SKIPPED"
  proof (intro allI impI)
    fix m assume m: "m < length js"
    with assms(4) have "status (js ! m) = PENDING \<or> status (js ! m) = SKIPPED" by simp
    then show "status (jobs r ! m) = SENT \<or> status (jobs r ! m) = FAILED
            \<or> status (jobs r ! m) = SKIPPED"
      using m settle_status [of ev m "js ! m"] by (auto simp: j settled_nth)
  qed
  have 5: "\<forall>m<length js. status (js ! m) = PENDING \<longrightarrow>
            m \<in> set (dispatched r) \<and> attempts (jobs r ! m) = attempts (js ! m) + 1"
    by (simp add: d j settled_nth settle_attempts)
  from 1 2 3 4 5 show ?thesis by (intro conjI)
qed

theorem failed_dispatch_does_not_halt_witness:
  "(1::nat) < length sample_jobs
   \<and> \<not> success (gateway sample_env 1 ((sample_jobs ! 1)\<lparr>status := DUE\<rparr>))
   \<and> map status (jobs (run_immediate sample_env sample_jobs 0)) = [SENT, FAILED, SENT]
   \<and> map status (jobs (run_scheduled sample_env sample_jobs 0)) = [SENT, FAILED, SENT]
   \<and> last_error (jobs (run_scheduled sample_env sample_jobs 0) ! 1) = Some ''exit status 1''"
proof -
  have a: "(1::nat) < length sample_jobs" "status (sample_jobs ! 1) = PENDING"
    "\<not> success (gateway sample_env 1 ((sample_jobs ! 1)\<lparr>status := DUE\<rparr>))"
    "\<forall>m<length sample_jobs. status (sample_jobs ! m) = PENDING \<or> status (sample_jobs ! m) = SKIPPED"
    by (simp_all add: sample_jobs_def sample_env_def nth_Cons split: nat.splits)
  note i = failed_dispatch_does_not_halt [OF a, of "run_immediate sample_env sample_jobs 0" 0]
  note s = failed_dispatch_does_not_halt [OF a, of "run_scheduled sample_env sample_jobs 0" 0]
  have e: "error (gateway sample_env 1 ((sample_jobs ! 1)\<lparr>status := DUE\<rparr>)) = Some ''exit status 1''"
    by (simp add: sample_env_def)
  have ji: "map status (jobs (run_immediate sample_env sample_jobs 0)) = [SENT, FAILED, SENT]"
    by (simp add: jobs_run_immediate settled_def settle_def sample_jobs_def sample_env_def upt_rec [of 0])
  have js: "map status (jobs (run_scheduled sample_env sample_jobs 0)) = [SENT, FAILED, SENT]"
    by (simp add: jobs_run_scheduled settled_def settle_def sample_jobs_def sample_env_def upt_rec [of 0])
  from s e have "last_error (jobs (run_scheduled sample_env sample_jobs 0) ! 1) = Some ''exit status 1''"
    by simp
  with a(1,3) ji js i show ?thesis by simp
qed

end
